theory Spec2Isabelle
  imports Main "HOL-Library.Sublist"
begin

chapter \<open>The MCP tool server: session dispatcher and tools\<close>

section \<open>Strings, numbers and tool results\<close>

text \<open>
  A tool handler returns \<^verbatim>\<open>{ content: [{ type: 'text', text: ... }, ...] }\<close>. Every content
  block of the repository has type \<^verbatim>\<open>'text'\<close>, so a block is its text and a result is
  the list of its blocks.
\<close>

datatype content = Text string

type_synonym tool_result = "content list"

fun text_of :: "content \<Rightarrow> string" where
  "text_of (Text t) = t"

text \<open>\<^verbatim>\<open>s.includes(t)\<close>: \<open>t\<close> occurs in \<open>s\<close> as a contiguous run of characters.\<close>

fun str_includes :: "string \<Rightarrow> string \<Rightarrow> bool" where
  "str_includes [] t = (t = [])"
| "str_includes (c # s) t = (prefix t (c # s) \<or> str_includes s t)"

text \<open>
  The escape sequences of the \<^verbatim>\<open>FORMAT\<close> table of \<^verbatim>\<open>registerTools\<close>
  (\<^verbatim>\<open>'\x1b[0m'\<close> and so on; \<^verbatim>\<open>\x1b\<close> is the character with code 27).
\<close>

definition ESC :: string where
  "ESC = [CHR 0x1B]"

definition FORMAT_RESET :: string where
  "FORMAT_RESET = ESC @ ''[0m''"

definition FORMAT_BOLD :: string where
  "FORMAT_BOLD = ESC @ ''[1m''"

definition FORMAT_GREEN :: string where
  "FORMAT_GREEN = ESC @ ''[32m''"

definition FORMAT_CYAN :: string where
  "FORMAT_CYAN = ESC @ ''[36m''"

text \<open>
  A JavaScript number inside a template literal is printed by \<^verbatim>\<open>Number::toString\<close>. The
  model covers the integer-valued numbers (below \<open>10^21\<close> in size, which print as plain
  decimal digits with a leading minus sign when negative); their sum is exact as long as
  it stays below \<open>2^53\<close> in size.
\<close>

definition digit_char :: "nat \<Rightarrow> char" where
  "digit_char d = char_of (48 + d)"

fun decimal :: "nat \<Rightarrow> string" where
  "decimal n = (if n < 10 then [digit_char n] else decimal (n div 10) @ [digit_char (n mod 10)])"

definition number_toString :: "int \<Rightarrow> string" where
  "number_toString n = (if n < 0 then ''-'' @ decimal (nat (- n)) else decimal (nat n))"

subsection \<open>The adder tool\<close>

text \<open>
  \<^verbatim>\<open>tools.js\<close> and \<^verbatim>\<open>tools-basic.js\<close> register the same handler, character for
  character:
  \<^verbatim>\<open>
  async (arg) => {
      const { a, b } = arg;
      ...
      return { content: [ { type: 'text',
          text: `${FORMAT.GREEN}Result:${FORMAT.RESET} The sum of ${FORMAT.BOLD}${a}${FORMAT.RESET}
                 and ${FORMAT.BOLD}${b}${FORMAT.RESET} is ${FORMAT.CYAN}${a + b}${FORMAT.RESET}.\n` } ] };
  }
  \<close>
  (the template is one line in the source). The two \<^verbatim>\<open>typeof\<close> checks only log.
\<close>

definition adder :: "int \<Rightarrow> int \<Rightarrow> tool_result" where
  "adder a b =
     [Text (FORMAT_GREEN @ ''Result:'' @ FORMAT_RESET @ '' The sum of '' @
            FORMAT_BOLD @ number_toString a @ FORMAT_RESET @ '' and '' @
            FORMAT_BOLD @ number_toString b @ FORMAT_RESET @ '' is '' @
            FORMAT_CYAN @ number_toString (a + b) @ FORMAT_RESET @ ''.'' @ [CHR 0x0A])]"

section \<open>The session dispatcher\<close>

text \<open>
  The server keeps one table, \<^verbatim>\<open>const transports = {}\<close>, from session id to the
  transport object of the session. Transports are objects with identity: the table and the
  two callbacks of a transport refer to the same object, so the model keeps every
  transport created so far in a heap and the table holds references into it. A request
  handler runs as one step; the interleaving of handlers at their \<^verbatim>\<open>await\<close> points is
  outside the model.
\<close>

type_synonym ref = nat

text \<open>
  Modelled from the spec: the transport is the SDK's \<^verbatim>\<open>StreamableHTTPServerTransport\<close>,
  whose code is not part of the repository. The model keeps of it what the spec says of a
  Session: its \<open>id\<close> (\<^verbatim>\<open>transport.sessionId\<close>, undefined until the handshake) and its
  flag \<open>closed\<close>.
\<close>

record transport =
  sessionId :: "string option"
  closed :: bool

record dispatcher =
  heap :: "transport list"
  transports :: "string \<rightharpoonup> ref"

definition initial :: dispatcher where
  "initial = \<lparr>heap = [], transports = Map.empty\<rparr>"

text \<open>
  \<^verbatim>\<open>transports[sessionId]\<close> reads a property of a plain object: an own property when the
  table has the key, and otherwise what the object inherits from \<^verbatim>\<open>Object.prototype\<close>
  (a function, or the prototype itself), which is truthy and has no \<^verbatim>\<open>handleRequest\<close>.
  The table only ever receives keys made by \<^verbatim>\<open>randomUUID()\<close>, never one of the
  inherited names.
\<close>

definition Object_prototype :: "string list" where
  "Object_prototype =
     [''constructor'', ''__defineGetter__'', ''__defineSetter__'', ''hasOwnProperty'',
      ''__lookupGetter__'', ''__lookupSetter__'', ''isPrototypeOf'', ''propertyIsEnumerable'',
      ''toString'', ''valueOf'', ''__proto__'', ''toLocaleString'']"

datatype property = Own ref | Inherited | Undefined

definition get_property :: "(string \<rightharpoonup> ref) \<Rightarrow> string \<Rightarrow> property" where
  "get_property obj k =
     (case obj k of
        Some r \<Rightarrow> Own r
      | None \<Rightarrow> if k \<in> set Object_prototype then Inherited else Undefined)"

text \<open>
  \<^verbatim>\<open>sessionId && transports[sessionId]\<close>, with
  \<^verbatim>\<open>const sessionId = req.headers['mcp-session-id']\<close>: a header that is missing or
  empty is falsy. The local \<^verbatim>\<open>sessionId\<close> of the handlers is \<open>mcp_session_id\<close> here,
  since \<open>sessionId\<close> names the field of the transport.
\<close>

definition session_lookup :: "dispatcher \<Rightarrow> string option \<Rightarrow> property" where
  "session_lookup d mcp_session_id =
     (case mcp_session_id of
        None \<Rightarrow> Undefined
      | Some sid \<Rightarrow> if sid = [] then Undefined else get_property (transports d) sid)"

text \<open>
  What a handler does with the response: \<^verbatim>\<open>res.status(n).json(body)\<close>,
  \<^verbatim>\<open>res.status(n).send(text)\<close>, or it hands request and response to a transport
  (\<^verbatim>\<open>await transport.handleRequest(req, res, ...)\<close>), which answers. Calling
  \<^verbatim>\<open>handleRequest\<close> on an inherited property throws a \<^verbatim>\<open>TypeError\<close>. The body of
  the JSON answer has \<^verbatim>\<open>id: null\<close>, the field \<open>msg_id\<close> with the value \<open>None\<close>.
\<close>

record error_object =
  code :: int
  message :: string

record error_envelope =
  jsonrpc :: string
  error :: error_object
  msg_id :: "int option"

datatype outcome =
    Json nat error_envelope
  | Send nat string
  | HandleRequest ref
  | TypeError
  | NoResponse

text \<open>
  The request as the transport sees it: its method, and for a POST whether the body is an
  initialize request. The transport acts on the dispatcher only through the two callbacks
  it was given.
\<close>

datatype http_method = Post bool | Get | Delete

datatype callback = OnSessionInitialized string | OnClose

text \<open>
  Modelled from the spec: the closing of the SDK's transport, whose code is not part of
  the repository. In the spec an explicit termination request for an existing session, or
  the transport reporting closure, removes the session from the table, invokes any
  registered cleanup and marks \<open>closed = true\<close>. Closing marks the transport closed and
  reports through \<^verbatim>\<open>onclose\<close>, the cleanup the dispatcher registered.
\<close>

definition transport_close :: "transport \<Rightarrow> transport \<times> callback list" where
  "transport_close t = (t\<lparr>closed := True\<rparr>, [OnClose])"

text \<open>
  Modelled from the spec: \<^verbatim>\<open>handleRequest\<close> of the SDK's transport, whose code is not
  part of the repository, as far as the dispatcher can see it. On the handshake (an
  initialize request to a transport with no session yet) it takes a new id from its
  \<^verbatim>\<open>sessionIdGenerator\<close> and reports it with \<^verbatim>\<open>onsessioninitialized\<close> (the spec: "hand
  the handshake to the Session for protocol negotiation, return the negotiated SessionId");
  an initialize request to a session that has its id, any other body and a GET change
  nothing the dispatcher sees; a DELETE is the explicit termination and closes the
  transport. \<open>uuid\<close> is the value \<^verbatim>\<open>randomUUID()\<close> returns when the generator
  \<^verbatim>\<open>() => randomUUID()\<close> is called in this step.
\<close>

definition transport_handleRequest :: "http_method \<Rightarrow> string \<Rightarrow> transport \<Rightarrow> transport \<times> callback list" where
  "transport_handleRequest m uuid t =
     (case m of
        Post True \<Rightarrow>
          (case sessionId t of
             None \<Rightarrow> (t\<lparr>sessionId := Some uuid\<rparr>, if uuid \<noteq> [] then [OnSessionInitialized uuid] else [])
           | Some sid \<Rightarrow> (t, []))
      | Post False \<Rightarrow> (t, [])
      | Get \<Rightarrow> (t, [])
      | Delete \<Rightarrow> transport_close t)"

text \<open>
  The two callbacks the dispatcher gives to a transport it creates:
  \<^verbatim>\<open>
  onsessioninitialized: (sid) => {
      transports[sid] = transport;
  }
  transport.onclose = () => {
      if (transport.sessionId) {
          delete transports[transport.sessionId];
      }
  };
  \<close>
\<close>

definition onsessioninitialized :: "ref \<Rightarrow> string \<Rightarrow> dispatcher \<Rightarrow> dispatcher" where
  "onsessioninitialized transport sid d = d\<lparr>transports := (transports d)(sid \<mapsto> transport)\<rparr>"

definition onclose :: "ref \<Rightarrow> dispatcher \<Rightarrow> dispatcher" where
  "onclose transport d =
     (case sessionId (heap d ! transport) of
        None \<Rightarrow> d
      | Some sid \<Rightarrow> if sid = [] then d else d\<lparr>transports := (transports d)(sid := None)\<rparr>)"

fun run_callback :: "ref \<Rightarrow> callback \<Rightarrow> dispatcher \<Rightarrow> dispatcher" where
  "run_callback transport (OnSessionInitialized sid) d = onsessioninitialized transport sid d"
| "run_callback transport OnClose d = onclose transport d"

definition apply_transport :: "ref \<Rightarrow> transport \<times> callback list \<Rightarrow> dispatcher \<Rightarrow> dispatcher" where
  "apply_transport transport tc d =
     fold (run_callback transport) (snd tc) (d\<lparr>heap := (heap d)[transport := fst tc]\<rparr>)"

definition handleRequest :: "ref \<Rightarrow> http_method \<Rightarrow> string \<Rightarrow> dispatcher \<Rightarrow> dispatcher" where
  "handleRequest transport m uuid d =
     apply_transport transport (transport_handleRequest m uuid (heap d ! transport)) d"

text \<open>
  \<^verbatim>\<open>
  app.post('/mcp', async (req, res) => {
      const sessionId = req.headers['mcp-session-id'];
      let transport;
      if (sessionId && transports[sessionId]) transport = transports[sessionId];
      else if (!sessionId && isInitializeRequest(req.body))
      {
          transport = new StreamableHTTPServerTransport({ sessionIdGenerator: () => randomUUID(),
              onsessioninitialized: (sid) => { transports[sid] = transport; } });
          transport.onclose = () => { ... };
          await server.connect(transport);
      } else {
          res.status(400).json({
              jsonrpc: '2.0',
              error: { code: -32000, message: 'Bad Request: No valid session ID provided' },
              id: null,
          });
          return;
      }
      await transport.handleRequest(req, res, req.body);
  });
  \<close>
  \<open>isInitializeRequest\<close> is the value of \<^verbatim>\<open>isInitializeRequest(req.body)\<close>. The handler
  has no name in the source; it is \<open>app_post\<close> here.
\<close>

definition invalid_session :: error_envelope where
  "invalid_session =
     \<lparr>jsonrpc = ''2.0'',
      error = \<lparr>code = - 32000, message = ''Bad Request: No valid session ID provided''\<rparr>,
      msg_id = None\<rparr>"

definition new_transport :: transport where
  "new_transport = \<lparr>sessionId = None, closed = False\<rparr>"

definition app_post :: "string option \<Rightarrow> bool \<Rightarrow> string \<Rightarrow> dispatcher \<Rightarrow> dispatcher \<times> outcome" where
  "app_post mcp_session_id isInitializeRequest uuid d =
     (case session_lookup d mcp_session_id of
        Own transport \<Rightarrow>
          (handleRequest transport (Post isInitializeRequest) uuid d, HandleRequest transport)
      | Inherited \<Rightarrow> (d, TypeError)
      | Undefined \<Rightarrow>
          if (mcp_session_id = None \<or> mcp_session_id = Some []) \<and> isInitializeRequest then
            (let transport = length (heap d);
                 d1 = d\<lparr>heap := heap d @ [new_transport]\<rparr>
             in (handleRequest transport (Post isInitializeRequest) uuid d1, HandleRequest transport))
          else (d, Json 400 invalid_session))"

text \<open>
  \<^verbatim>\<open>
  const handleSessionRequest = async (req, res) => {
      const sessionId = req.headers['mcp-session-id'];
      if (!sessionId || !transports[sessionId]) {
          res.status(400).send('Invalid or missing session ID');
          return;
      }
      const transport = transports[sessionId];
      await transport.handleRequest(req, res);
  };
  app.get('/mcp', handleSessionRequest);
  app.delete('/mcp', handleSessionRequest);
  \<close>
\<close>

definition handleSessionRequest :: "http_method \<Rightarrow> string option \<Rightarrow> string \<Rightarrow> dispatcher \<Rightarrow> dispatcher \<times> outcome" where
  "handleSessionRequest m mcp_session_id uuid d =
     (case session_lookup d mcp_session_id of
        Undefined \<Rightarrow> (d, Send 400 ''Invalid or missing session ID'')
      | Inherited \<Rightarrow> (d, TypeError)
      | Own transport \<Rightarrow> (handleRequest transport m uuid d, HandleRequest transport))"

text \<open>
  The operations of the dispatcher: the three kinds of request, and the closure of a
  transport reported by the SDK without a request.
\<close>

datatype event =
    POST "string option" bool
  | GET "string option"
  | DELETE "string option"
  | Close ref

fun step :: "string \<Rightarrow> event \<Rightarrow> dispatcher \<Rightarrow> dispatcher \<times> outcome" where
  "step uuid (POST mcp_session_id isInitializeRequest) d = app_post mcp_session_id isInitializeRequest uuid d"
| "step uuid (GET mcp_session_id) d = handleSessionRequest Get mcp_session_id uuid d"
| "step uuid (DELETE mcp_session_id) d = handleSessionRequest Delete mcp_session_id uuid d"
| "step uuid (Close transport) d =
     (if transport < length (heap d)
      then (apply_transport transport (transport_close (heap d ! transport)) d, NoResponse)
      else (d, NoResponse))"

text \<open>
  \<^verbatim>\<open>randomUUID()\<close> of \<^verbatim>\<open>node:crypto\<close> returns a version 4 UUID: 36 characters, hexadecimal
  digits in five groups separated by hyphens. It is a random value; the model takes from
  it that it has this shape and that it is new: no transport created so far has it as its
  session id. The code itself never compares a new id with the table.
\<close>

definition hex_digit :: "char \<Rightarrow> bool" where
  "hex_digit c = (c \<in> set ''0123456789abcdef'')"

definition is_uuid :: "string \<Rightarrow> bool" where
  "is_uuid s =
     (length s = 36 \<and>
      list_all (\<lambda>i. if i \<in> {8, 13, 18, 23} then s ! i = CHR ''-'' else hex_digit (s ! i)) [0..<36])"

definition fresh_uuid :: "dispatcher \<Rightarrow> string \<Rightarrow> bool" where
  "fresh_uuid d uuid = (is_uuid uuid \<and> list_all (\<lambda>t. sessionId t \<noteq> Some uuid) (heap d))"

text \<open>
  The states of the dispatcher: it starts with an empty table, and every operation is a
  step, with a new UUID at hand.
\<close>

inductive reachable :: "dispatcher \<Rightarrow> bool" where
  initial: "reachable initial"
| step: "reachable d \<Longrightarrow> fresh_uuid d uuid \<Longrightarrow> reachable (fst (step uuid e d))"


text \<open>
  The invariant of the reachable states. Every entry of the table refers to a transport
  of the heap that carries the key as its session id and is not closed; every transport
  has a UUID as its session id and is in the table under it unless it is closed; no two
  transports share a session id.
\<close>

definition inv_table :: "dispatcher \<Rightarrow> bool" where
  "inv_table d = (\<forall>sid r. transports d sid = Some r \<longrightarrow>
      r < length (heap d) \<and> sessionId (heap d ! r) = Some sid \<and> \<not> closed (heap d ! r))"

definition inv_heap :: "dispatcher \<Rightarrow> bool" where
  "inv_heap d = (\<forall>r < length (heap d). \<exists>sid. sessionId (heap d ! r) = Some sid \<and> is_uuid sid \<and>
      (\<not> closed (heap d ! r) \<longrightarrow> transports d sid = Some r))"

definition inv_ids :: "dispatcher \<Rightarrow> bool" where
  "inv_ids d = (\<forall>r < length (heap d). \<forall>r' < length (heap d).
      sessionId (heap d ! r) = sessionId (heap d ! r') \<longrightarrow> r = r')"

definition dispatcher_inv :: "dispatcher \<Rightarrow> bool" where
  "dispatcher_inv d = (inv_table d \<and> inv_heap d \<and> inv_ids d)"

text \<open>Two UUIDs and the states of one session, for the examples.\<close>

definition uuid_a :: string where
  "uuid_a = ''3b241101-e2bb-4255-8caf-4136c566a962''"

definition uuid_b :: string where
  "uuid_b = ''9f8a7c6d-0b1e-4f2a-8d3c-5e6f7a8b9c0d''"

definition session_a_open :: dispatcher where
  "session_a_open = \<lparr>heap = [\<lparr>sessionId = Some uuid_a, closed = False\<rparr>], transports = [uuid_a \<mapsto> 0]\<rparr>"

definition session_a_closed :: dispatcher where
  "session_a_closed = \<lparr>heap = [\<lparr>sessionId = Some uuid_a, closed = True\<rparr>], transports = Map.empty\<rparr>"






section \<open>The local file search tool\<close>

text \<open>
  A value thrown in JavaScript, by its message.
\<close>

datatype js_error = Error string

text \<open>
  \<^verbatim>\<open>toLowerCase\<close>, on the letters A to Z; the model leaves every other character as it is
  (JavaScript also maps capital letters beyond ASCII).
\<close>

definition toLowerCase :: "string \<Rightarrow> string" where
  "toLowerCase s = map (\<lambda>c. if 65 \<le> (of_char c :: nat) \<and> (of_char c :: nat) \<le> 90
                                then char_of ((of_char c :: nat) + 32) else c) s"

text \<open>
  \<^verbatim>\<open>path.extname\<close> on a file name (no separator inside): the part from the last dot on,
  empty when there is no dot, when the last dot is the first character, and for
  \<^verbatim>\<open>'..'\<close>.
\<close>

definition extname :: "string \<Rightarrow> string" where
  "extname p =
     (if CHR ''.'' \<notin> set p \<or> p = ''..'' then []
      else let ext = CHR ''.'' # rev (takeWhile (\<lambda>c. c \<noteq> CHR ''.'') (rev p))
           in if length ext = length p then [] else ext)"

text \<open>
  The directory tree the search walks. \<^verbatim>\<open>fs.readdirSync(dir, { withFileTypes: true })\<close>
  lists a directory in the order of the file system; an entry is a directory
  (\<^verbatim>\<open>file.isDirectory()\<close>) or anything else, handled as a file. A file carries what the
  search can learn about it: its content when \<^verbatim>\<open>readFile\<close> succeeds, its
  \<^verbatim>\<open>stats\<close> when \<^verbatim>\<open>fs.statSync\<close> succeeds. \<open>Unreadable\<close> is a directory whose
  listing throws. A path is the list of names from the directory searched
  (\<^verbatim>\<open>path.join(dir, file.name)\<close> adds one name).
\<close>

record file_stats =
  size_bytes :: nat
  mtime :: int

datatype dirent =
    File string "string option" "file_stats option"
  | Directory string "dirent list"
  | Unreadable string js_error

datatype fileType = All | Name | Extension | Content

record result =
  name :: string
  path :: "string list"
  fileSize :: nat
  lastModified :: int

record scan =
  results :: "result list"
  scannedFiles :: nat
  matchedFiles :: nat

text \<open>
  The test of one file, with \<^verbatim>\<open>fileType\<close> one of \<^verbatim>\<open>'all'\<close>, \<^verbatim>\<open>'name'\<close>,
  \<^verbatim>\<open>'extension'\<close>, \<^verbatim>\<open>'content'\<close>:
  \<^verbatim>\<open>
  const fileExtension = path.extname(file.name).toLowerCase();
  if (fileType === 'all' || fileType === 'name') {
      if (file.name.toLowerCase().includes(searchTerm.toLowerCase())) isMatch = true;
  }
  if ((fileType === 'all' || fileType === 'extension') && !isMatch) {
      const extWithoutDot = fileExtension.slice(1).toLowerCase();
      if (extWithoutDot === searchTerm.toLowerCase() ||
          fileExtension.toLowerCase() === searchTerm.toLowerCase()) isMatch = true;
  }
  if ((fileType === 'all' || fileType === 'content') && !isMatch) {
      try {
          if (textExtensions.includes(fileExtension)) {
              const content = await readFile(fullPath, 'utf8');
              if (content.toLowerCase().includes(searchTerm.toLowerCase())) isMatch = true;
          }
      } catch (err) { ... }
  }
  \<close>
\<close>

definition textExtensions :: "string list" where
  "textExtensions = [''.txt'', ''.js'', ''.json'', ''.html'', ''.css'', ''.md'', ''.csv'', ''.xml'', ''.log'']"

definition isMatch :: "fileType \<Rightarrow> string \<Rightarrow> string \<Rightarrow> string option \<Rightarrow> bool" where
  "isMatch ft searchTerm fname content =
     (let fileExtension = toLowerCase (extname fname);
          m1 = ((ft = All \<or> ft = Name) \<and> str_includes (toLowerCase fname) (toLowerCase searchTerm));
          m2 = (m1 \<or> ((ft = All \<or> ft = Extension) \<and>
                  (toLowerCase (drop 1 fileExtension) = toLowerCase searchTerm \<or>
                   toLowerCase fileExtension = toLowerCase searchTerm)));
          m3 = (m2 \<or> ((ft = All \<or> ft = Content) \<and> fileExtension \<in> set textExtensions \<and>
                  (case content of None \<Rightarrow> False
                   | Some c \<Rightarrow> str_includes (toLowerCase c) (toLowerCase searchTerm))))
      in m3)"

text \<open>
  The file branch of the loop body: \<^verbatim>\<open>scannedFiles++\<close>, and on a match
  \<^verbatim>\<open>matchedFiles++\<close> and \<^verbatim>\<open>results.push({ name, path, size, lastModified })\<close>, with
  \<^verbatim>\<open>{ size: 0, mtime: new Date(0) }\<close> when \<^verbatim>\<open>statSync\<close> throws.
\<close>

definition visitFile :: "fileType \<Rightarrow> string \<Rightarrow> string list \<Rightarrow> string \<Rightarrow> string option \<Rightarrow> file_stats option \<Rightarrow> scan \<Rightarrow> scan" where
  "visitFile ft searchTerm dir fname content st s =
     (let s1 = s\<lparr>scannedFiles := scannedFiles s + 1\<rparr> in
      if isMatch ft searchTerm fname content then
        (let stats = (case st of Some x \<Rightarrow> x | None \<Rightarrow> \<lparr>size_bytes = 0, mtime = 0\<rparr>) in
         s1\<lparr>matchedFiles := matchedFiles s1 + 1,
            results := results s1 @ [\<lparr>name = fname, path = dir @ [fname],
                                      fileSize = size_bytes stats, lastModified = mtime stats\<rparr>]\<rparr>)
      else s1)"

text \<open>
  \<^verbatim>\<open>
  async function scanDirectory(dir) {
      const files = fs.readdirSync(dir, { withFileTypes: true });
      for (const file of files) {
          const fullPath = path.join(dir, file.name);
          if (file.isDirectory()) {
              if (file.name !== 'node_modules' && file.name !== '.git') {
                  await scanDirectory(fullPath);
              }
          } else { ... the file branch ... }
          if (results.length >= 20) {
              break;
          }
      }
  }
  \<close>
  The three counters are variables of the enclosing handler, passed here as the state.
  An exception of \<^verbatim>\<open>readdirSync\<close> leaves every enclosing call.
\<close>

fun scanDirectory :: "fileType \<Rightarrow> string \<Rightarrow> string list \<Rightarrow> dirent list \<Rightarrow> scan \<Rightarrow> js_error + scan" where
  "scanDirectory ft searchTerm dir [] s = Inr s"
| "scanDirectory ft searchTerm dir (Directory fname children # files) s =
     (if fname \<noteq> ''node_modules'' \<and> fname \<noteq> ''.git'' then
        (case scanDirectory ft searchTerm (dir @ [fname]) children s of
           Inl err \<Rightarrow> Inl err
         | Inr s' \<Rightarrow>
             if length (results s') \<ge> 20 then Inr s' else scanDirectory ft searchTerm dir files s')
      else if length (results s) \<ge> 20 then Inr s
      else scanDirectory ft searchTerm dir files s)"
| "scanDirectory ft searchTerm dir (Unreadable fname err # files) s =
     (if fname \<noteq> ''node_modules'' \<and> fname \<noteq> ''.git'' then Inl err
      else if length (results s) \<ge> 20 then Inr s
      else scanDirectory ft searchTerm dir files s)"
| "scanDirectory ft searchTerm dir (File fname content st # files) s =
     (let s' = visitFile ft searchTerm dir fname content st s in
      if length (results s') \<ge> 20 then Inr s' else scanDirectory ft searchTerm dir files s')"


text \<open>
  The handler. It first asks \<^verbatim>\<open>fs.statSync(directory)\<close>: \<open>None\<close> is a path that
  cannot be read, a file is not a directory. The scan starts from empty results; any
  exception becomes the text "An error occurred during the file search". With results the
  handler sorts them, latest first (\<^verbatim>\<open>results.sort((a, b) => b.lastModified -
  a.lastModified)\<close>), and prints one line for each; the printed sizes go through floating
  point, so the model stops at the list that is printed, with the two counts of the
  report. The name of the directory searched is never compared with anything.
\<close>

datatype search_outcome =
    NotFound
  | NotADirectory
  | SearchError js_error
  | NoFilesFound nat
  | Found "result list" nat nat

definition init_scan :: scan where
  "init_scan = \<lparr>results = [], scannedFiles = 0, matchedFiles = 0\<rparr>"

fun local_file_search :: "string \<Rightarrow> dirent option \<Rightarrow> fileType \<Rightarrow> search_outcome" where
  "local_file_search searchTerm None ft = NotFound"
| "local_file_search searchTerm (Some (File fname content st)) ft = NotADirectory"
| "local_file_search searchTerm (Some (Unreadable fname err)) ft = SearchError err"
| "local_file_search searchTerm (Some (Directory fname files)) ft =
     (case scanDirectory ft searchTerm [] files init_scan of
        Inl err \<Rightarrow> SearchError err
      | Inr s \<Rightarrow>
          if length (results s) = 0 then NoFilesFound (scannedFiles s)
          else Found (sort_key (\<lambda>r. - lastModified r) (results s)) (scannedFiles s) (matchedFiles s))"

fun results_of :: "search_outcome \<Rightarrow> result list" where
  "results_of (Found rs scanned matched) = rs"
| "results_of other = []"

fun scanned_of :: "search_outcome \<Rightarrow> nat" where
  "scanned_of (Found rs scanned matched) = scanned"
| "scanned_of (NoFilesFound scanned) = scanned"
| "scanned_of other = 0"

text \<open>
  The tree without its directories called \<^verbatim>\<open>node_modules\<close> or \<^verbatim>\<open>.git\<close>, at any depth,
  and the files of a tree by their paths: the vocabulary of the claim about the
  directories the search skips.
\<close>

definition excluded :: "string \<Rightarrow> bool" where
  "excluded fname = (fname = ''node_modules'' \<or> fname = ''.git'')"

fun prune :: "dirent list \<Rightarrow> dirent list" where
  "prune [] = []"
| "prune (Directory fname children # files) =
     (if excluded fname then prune files else Directory fname (prune children) # prune files)"
| "prune (Unreadable fname err # files) =
     (if excluded fname then prune files else Unreadable fname err # prune files)"
| "prune (File fname content st # files) = File fname content st # prune files"

fun prune_root :: "dirent option \<Rightarrow> dirent option" where
  "prune_root (Some (Directory fname files)) = Some (Directory fname (prune files))"
| "prune_root other = other"

fun files_under :: "string list \<Rightarrow> dirent list \<Rightarrow> string list list" where
  "files_under dir [] = []"
| "files_under dir (Directory fname children # files) =
     files_under (dir @ [fname]) children @ files_under dir files"
| "files_under dir (Unreadable fname err # files) = files_under dir files"
| "files_under dir (File fname content st # files) = (dir @ [fname]) # files_under dir files"

fun root_files :: "dirent option \<Rightarrow> string list list" where
  "root_files (Some (Directory fname files)) = files_under [] files"
| "root_files other = []"

definition example_tree :: "dirent list" where
  "example_tree =
     [Directory ''src'' [File ''app.js'' None (Some \<lparr>size_bytes = 10, mtime = 5\<rparr>)],
      Directory ''node_modules'' [File ''app.js'' None None, Directory ''dep'' [File ''app.css'' None None]],
      Directory ''lib'' [Directory ''.git'' [File ''app.txt'' None None], File ''README'' None None],
      File ''app.md'' (Some ''text'') (Some \<lparr>size_bytes = 3, mtime = 9\<rparr>)]"

section \<open>The truth table tool\<close>

text \<open>
  \<^verbatim>\<open>
  const extractVariables = expr => {
      const matches = expr.match(/\b[A-Z]\b/g);
      return [...new Set(matches)].sort();
  };
  \<close>
  The regular expression matches one capital letter with a word boundary on each side: the
  character before it and the character after it, where there is one, is not a word
  character (a letter, a digit or the underscore). A match is one character long, so the
  global search finds every such position, from left to right. With no match at all
  \<^verbatim>\<open>match\<close> returns \<^verbatim>\<open>null\<close>, and \<^verbatim>\<open>new Set(null)\<close> is the empty set, as for
  the empty list of matches. A variable is a string of one character, modelled as that
  character.
\<close>

definition isUpper :: "char \<Rightarrow> bool" where
  "isUpper c = (65 \<le> (of_char c :: nat) \<and> (of_char c :: nat) \<le> 90)"

definition isWordChar :: "char \<Rightarrow> bool" where
  "isWordChar c = (let n = (of_char c :: nat) in
     (65 \<le> n \<and> n \<le> 90) \<or> (97 \<le> n \<and> n \<le> 122) \<or> (48 \<le> n \<and> n \<le> 57) \<or> n = 95)"

text \<open>
  \<^verbatim>\<open>\b\<close> next to a word character: the neighbour on the other side is missing or is not
  a word character.
\<close>

definition boundary :: "char option \<Rightarrow> bool" where
  "boundary nb = (case nb of None \<Rightarrow> True | Some c \<Rightarrow> \<not> isWordChar c)"

text \<open>The matches of \<^verbatim>\<open>/\b[A-Z]\b/g\<close>; \<open>prev\<close> is the character before the rest.\<close>

fun matchAll :: "char option \<Rightarrow> string \<Rightarrow> string" where
  "matchAll prev [] = []"
| "matchAll prev (c # cs) =
     (if isUpper c \<and> boundary prev \<and> boundary (case cs of [] \<Rightarrow> None | d # _ \<Rightarrow> Some d)
      then c # matchAll (Some c) cs
      else matchAll (Some c) cs)"

text \<open>
  \<^verbatim>\<open>[...new Set(matches)]\<close>: a set keeps the first occurrence of each value, in insertion
  order.
\<close>

definition Set_add :: "'a \<Rightarrow> 'a list \<Rightarrow> 'a list" where
  "Set_add x acc = (if x \<in> set acc then acc else acc @ [x])"

definition new_Set :: "'a list \<Rightarrow> 'a list" where
  "new_Set xs = fold Set_add xs []"

text \<open>
  \<^verbatim>\<open>sort()\<close> with no comparator orders strings by their code units: one-character
  strings by the code of the character.
\<close>

definition extractVariables :: "string \<Rightarrow> string" where
  "extractVariables expr = sort_key (of_char :: char \<Rightarrow> nat) (new_Set (matchAll None expr))"

text \<open>
  \<^verbatim>\<open>
  const generateCombinations = vars => {
      const n = vars.length;
      const rows = [];
      for (let i = 0; i < (1 << n); i++) {
          const row = {};
          vars.forEach((v, j) => {
              row[v] = Boolean((i >> (n - j - 1)) & 1);
          });
          rows.push(row);
      }
      return rows;
  };
  \<close>
  The shifts work on 32-bit integers and take their count modulo 32: \<^verbatim>\<open>1 << n\<close> is
  \<open>2 ^ (n mod 32)\<close>, negative when \<open>n mod 32 = 31\<close>. The counter \<open>i\<close> stays below
  \<open>2 ^ 31\<close>, so \<^verbatim>\<open>(i >> k) & 1\<close> is bit \<open>k mod 32\<close> of \<open>i\<close>. A row is an object used as
  a dictionary from variable to truth value.
\<close>

definition shl_1 :: "nat \<Rightarrow> int" where
  "shl_1 n = (if n mod 32 = 31 then - (2 ^ 31) else 2 ^ (n mod 32))"

definition shr_and_1 :: "nat \<Rightarrow> nat \<Rightarrow> bool" where
  "shr_and_1 i k = ((i div 2 ^ (k mod 32)) mod 2 \<noteq> 0)"

definition generateCombinations :: "string \<Rightarrow> (char \<rightharpoonup> bool) list" where
  "generateCombinations vars =
     (let n = length vars in
      map (\<lambda>i. fold (\<lambda>j row. row(vars ! j \<mapsto> shr_and_1 i (n - j - 1))) [0..<n] Map.empty)
          [0..<nat (shl_1 n)])"

text \<open>
  The words of the claim about this tool, for comparison with the code. The variables of
  an expression are its capital letters that stand alone: neither neighbour is a word
  character. A row is read along the columns \<open>vars\<close>, and the truth values read as a
  binary numeral with the first column as the most significant bit.
\<close>

definition variables :: "string \<Rightarrow> char set" where
  "variables expr =
     {c. \<exists>pre post. expr = pre @ c # post \<and> isUpper c \<and>
           (pre = [] \<or> \<not> isWordChar (last pre)) \<and> (post = [] \<or> \<not> isWordChar (hd post))}"

definition row_bits :: "string \<Rightarrow> (char \<rightharpoonup> bool) \<Rightarrow> bool list" where
  "row_bits vars row = map (\<lambda>v. row v = Some True) vars"

definition binary_value :: "bool list \<Rightarrow> nat" where
  "binary_value bs = foldl (\<lambda>acc b. 2 * acc + of_bool b) 0 bs"

text \<open>
  The set of matches with a character before the text, used to reason about
  \<open>matchAll\<close> along its recursion.
\<close>

definition occ :: "char option \<Rightarrow> string \<Rightarrow> char set" where
  "occ prev cs = {c. \<exists>pre post. cs = pre @ c # post \<and> isUpper c \<and>
       boundary (if pre = [] then prev else Some (last pre)) \<and>
       boundary (case post of [] \<Rightarrow> None | d # _ \<Rightarrow> Some d)}"

section \<open>The tools\<close>

subsection \<open>Descriptors and the registry\<close>

text \<open>
  \<^verbatim>\<open>registerTools(server)\<close> calls \<^verbatim>\<open>server.tool(name, description, shape, handler)\<close>
  once for each tool. The shape gives each parameter a \<^verbatim>\<open>zod\<close> type, with
  \<^verbatim>\<open>.optional()\<close>, \<^verbatim>\<open>.default(...)\<close> and \<^verbatim>\<open>.describe(...)\<close>.
\<close>

datatype zod = ZString | ZNumber | ZArray zod | ZEnum "string list"

record parameter =
  key :: string
  schema :: zod
  optional :: bool
  default_value :: "string option"
  describe :: string

record tool_descriptor =
  tool_name :: string
  description :: string
  inputSchema :: "parameter list"

text \<open>
  Modelled from the spec: the Tool Registry is the SDK's \<^verbatim>\<open>McpServer\<close>, whose code is
  not part of the repository. The spec calls it a mapping from tool name to (input
  schema, handler) that lists its descriptors in registration order: the entries in the
  order they were registered.
\<close>

datatype registry_error = DuplicateToolName string

type_synonym 'h registry = "(tool_descriptor \<times> 'h) list"

text \<open>
  Modelled from the spec: \<^verbatim>\<open>register\<close> of the registry in the SDK. In the spec
  \<^verbatim>\<open>register(descriptor, handler)\<close> fails with \<^verbatim>\<open>DuplicateToolName\<close> if
  \<^verbatim>\<open>descriptor.name\<close> is already present.
\<close>

definition register :: "tool_descriptor \<Rightarrow> 'h \<Rightarrow> 'h registry \<Rightarrow> registry_error + 'h registry" where
  "register descriptor h reg =
     (if tool_name descriptor \<in> set (map (\<lambda>entry. tool_name (fst entry)) reg)
      then Inl (DuplicateToolName (tool_name descriptor))
      else Inr (reg @ [(descriptor, h)]))"

text \<open>
  Modelled from the spec: \<^verbatim>\<open>resolve\<close> of the registry in the SDK. In the spec
  \<^verbatim>\<open>resolve(name)\<close> gives the descriptor and the handler, or \<^verbatim>\<open>NotFound\<close>.
\<close>

definition resolve :: "'h registry \<Rightarrow> string \<Rightarrow> (tool_descriptor \<times> 'h) option" where
  "resolve reg n = find (\<lambda>entry. tool_name (fst entry) = n) reg"

text \<open>
  Modelled from the spec: \<^verbatim>\<open>list\<close> of the registry in the SDK. In the spec
  \<^verbatim>\<open>list()\<close> gives the ordered sequence of the descriptors, in registration order and
  stable across calls.
\<close>

definition list_tools :: "'h registry \<Rightarrow> tool_descriptor list" where
  "list_tools reg = map fst reg"

text \<open>
  Modelled from the spec: the tool-list query, answered in the SDK. In the spec it returns
  \<^verbatim>\<open>Registry.list()\<close> as triples of name, description and input schema, with no
  validation and no side effects: it leaves the registry as it is.
\<close>

definition tool_list_query :: "'h registry \<Rightarrow> 'h registry \<times> tool_descriptor list" where
  "tool_list_query reg = (reg, list_tools reg)"

text \<open>Registrations one after the other; the first that fails ends the sequence.\<close>

fun register_all :: "(tool_descriptor \<times> 'h) list \<Rightarrow> 'h registry \<Rightarrow> registry_error + 'h registry" where
  "register_all [] reg = Inr reg"
| "register_all ((descriptor, h) # rest) reg =
     (case register descriptor h reg of
        Inl err \<Rightarrow> Inl err
      | Inr reg' \<Rightarrow> register_all rest reg')"

text \<open>
  The ten handlers of \<^verbatim>\<open>tools.js\<close>, by name, and the ten registrations in the order of
  the source. A registration that fails throws, so the ones after it do not run.
\<close>

datatype tool =
    PrintMenu | NewsByTopic | Adder | TwitterXPost | WikipediaSearch | GithubRepoInfo
  | MovieRatings | LocalFileSearch | TruthTable | DefineWord

definition print_menu_tool :: tool_descriptor where
  "print_menu_tool =
     \<lparr>tool_name = ''print-menu'',
      description = ''Prints what can the MCP server do with the available tools, gives description of tools (apart from printing this menu)'',
      inputSchema =
        [\<lparr>key = ''title'', schema = ZString, optional = True, default_value = None,
          describe = ''Optional title for the menu''\<rparr>,
         \<lparr>key = ''items'', schema = ZArray ZString, optional = False, default_value = None,
          describe = ''List of tool descriptions to display''\<rparr>]\<rparr>"

definition news_by_topic_tool :: tool_descriptor where
  "news_by_topic_tool =
     \<lparr>tool_name = ''news-by-topic'',
      description = ''Fetches recent news headlines for a given topic using Google News'',
      inputSchema =
        [\<lparr>key = ''topic'', schema = ZString, optional = False, default_value = None,
          describe = ''The topic to search news for (e.g., AI, economy, cricket)''\<rparr>]\<rparr>"

definition adder_tool :: tool_descriptor where
  "adder_tool =
     \<lparr>tool_name = ''adder'',
      description = ''Add two numbers together'',
      inputSchema =
        [\<lparr>key = ''a'', schema = ZNumber, optional = False, default_value = None,
          describe = ''The first number''\<rparr>,
         \<lparr>key = ''b'', schema = ZNumber, optional = False, default_value = None,
          describe = ''The second number''\<rparr>]\<rparr>"

definition twitter_X_post_tool :: tool_descriptor where
  "twitter_X_post_tool =
     \<lparr>tool_name = ''twitter-X-post'',
      description = ''Create and post a tweet on X formally known as Twitter'',
      inputSchema =
        [\<lparr>key = ''status'', schema = ZString, optional = False, default_value = None,
          describe = ''The content of the tweet''\<rparr>]\<rparr>"

definition wikipedia_search_tool :: tool_descriptor where
  "wikipedia_search_tool =
     \<lparr>tool_name = ''wikipedia-search'',
      description = ''Search Wikipedia and return the summary of the top result'',
      inputSchema =
        [\<lparr>key = ''query'', schema = ZString, optional = False, default_value = None,
          describe = ''The search term for Wikipedia''\<rparr>]\<rparr>"

definition github_repo_info_tool :: tool_descriptor where
  "github_repo_info_tool =
     \<lparr>tool_name = ''github-repo-info'',
      description = ''Fetch information about a public GitHub repository'',
      inputSchema =
        [\<lparr>key = ''owner'', schema = ZString, optional = False, default_value = None,
          describe = ''GitHub username or organization''\<rparr>,
         \<lparr>key = ''repo'', schema = ZString, optional = False, default_value = None,
          describe = ''Repository name''\<rparr>]\<rparr>"

definition movie_ratings_tool :: tool_descriptor where
  "movie_ratings_tool =
     \<lparr>tool_name = ''movie-ratings'',
      description = ''Get ratings and information for movies or TV shows from various sources'',
      inputSchema =
        [\<lparr>key = ''title'', schema = ZString, optional = False, default_value = None,
          describe = ''The title of the movie or TV show to search for''\<rparr>,
         \<lparr>key = ''year'', schema = ZNumber, optional = True, default_value = None,
          describe = ''Optional: Release year to narrow down search results''\<rparr>,
         \<lparr>key = ''plot'', schema = ZEnum [''short'', ''full''], optional = True, default_value = Some ''short'',
          describe = ''Optional: Length of plot summary (short or full)''\<rparr>]\<rparr>"

definition local_file_search_tool :: tool_descriptor where
  "local_file_search_tool =
     \<lparr>tool_name = ''local-file-search'',
      description = ''Find files on the local system based on name/extension/content'',
      inputSchema =
        [\<lparr>key = ''searchTerm'', schema = ZString, optional = False, default_value = None,
          describe = ''Term to search for in filenames or content''\<rparr>,
         \<lparr>key = ''directory'', schema = ZString, optional = False, default_value = Some ''./'',
          describe = ''Directory to search in (defaults to current directory)''\<rparr>,
         \<lparr>key = ''fileType'', schema = ZEnum [''all'', ''name'', ''extension'', ''content''], optional = False, default_value = Some ''all'',
          describe = ''Type of search''\<rparr>]\<rparr>"

definition truth_table_tool :: tool_descriptor where
  "truth_table_tool =
     \<lparr>tool_name = ''truth_table'',
      description = ''Generate the truth table of a boolean expression (e.g., A && !B || C)'',
      inputSchema =
        [\<lparr>key = ''expression'', schema = ZString, optional = False, default_value = None,
          describe = ''Boolean expression using variables like A, B, C and operators like &&, ||, !''\<rparr>]\<rparr>"

definition define_word_tool :: tool_descriptor where
  "define_word_tool =
     \<lparr>tool_name = ''define_word'',
      description = ''Get the definition and example usage of a word'',
      inputSchema =
        [\<lparr>key = ''word'', schema = ZString, optional = False, default_value = None,
          describe = ''Word to define''\<rparr>]\<rparr>"

definition source_tools :: "(tool_descriptor \<times> tool) list" where
  "source_tools =
     [(print_menu_tool, PrintMenu),
      (news_by_topic_tool, NewsByTopic),
      (adder_tool, Adder),
      (twitter_X_post_tool, TwitterXPost),
      (wikipedia_search_tool, WikipediaSearch),
      (github_repo_info_tool, GithubRepoInfo),
      (movie_ratings_tool, MovieRatings),
      (local_file_search_tool, LocalFileSearch),
      (truth_table_tool, TruthTable),
      (define_word_tool, DefineWord)]"

definition registerTools :: "tool registry \<Rightarrow> registry_error + tool registry" where
  "registerTools server = register_all source_tools server"

subsection \<open>The handlers\<close>

text \<open>
  Strings of the source beyond ASCII are kept as their UTF-8 bytes: the warning sign
  (U+26A0 U+FE0F) and the cross mark (U+274C).
\<close>

definition warning_sign :: string where
  "warning_sign = [CHR 0xE2, CHR 0x9A, CHR 0xA0, CHR 0xEF, CHR 0xB8, CHR 0x8F]"

definition cross_mark :: string where
  "cross_mark = [CHR 0xE2, CHR 0x9D, CHR 0x8C]"

definition dquote :: string where
  "dquote = [CHR 0x22]"

definition newline :: string where
  "newline = [CHR 0x0A]"

fun join :: "string \<Rightarrow> string list \<Rightarrow> string" where
  "join sep [] = []"
| "join sep [x] = x"
| "join sep (x # y # ys) = x @ sep @ join sep (y # ys)"

text \<open>
  \<^verbatim>\<open>
  const header = title ? `${title}\n\n` : '\n\n';
  const menuText = items
      .map((item, index) => `${FORMAT.BOLD}(${index + 1})${FORMAT.RESET} ${FORMAT.CYAN}${item}${FORMAT.RESET}`)
      .join('\n');
  return { content: [{ type: 'text', text: `${header}${menuText}` }] };
  \<close>
  The arguments have passed the schema, so \<^verbatim>\<open>items\<close> is an array of strings.
\<close>

definition print_menu :: "string option \<Rightarrow> string list \<Rightarrow> tool_result" where
  "print_menu title items =
     (let header = (case title of
                      None \<Rightarrow> newline @ newline
                    | Some t \<Rightarrow> if t = [] then newline @ newline else t @ newline @ newline);
          menuText = join newline
            (map (\<lambda>(index, item). FORMAT_BOLD @ ''('' @ number_toString (int index + 1) @ '')'' @
                    FORMAT_RESET @ '' '' @ FORMAT_CYAN @ item @ FORMAT_RESET)
                 (enumerate 0 items))
      in [Text (header @ menuText)])"

text \<open>
  The handlers that call an external service wrap the call and the formatting of its
  answer in \<^verbatim>\<open>try\<close>. What the \<^verbatim>\<open>try\<close> block does depends on the network; the model
  takes its outcome as the argument \<open>attempt\<close>: the content it returns, or the error it
  throws (a rejected \<^verbatim>\<open>fetch\<close>, an answer that does not parse, the
  \<^verbatim>\<open>throw new Error(...)\<close> on a bad status of \<^verbatim>\<open>github-repo-info\<close> and
  \<^verbatim>\<open>movie-ratings\<close>). An error is kept as its message, the one part of it that a
  handler reads.

  Three handlers build the address before they enter the \<^verbatim>\<open>try\<close>:
  \<^verbatim>\<open>
  // news-by-topic
  async ({ topic }) => {
      const query = encodeURIComponent(topic);
      const rssUrl = `https://news.google.com/rss/search?q=${query}`;
      try {
  // wikipedia-search
  async (arg) => {
      const { query } = arg;
      const encodedQuery = encodeURIComponent(query);
      const url = `https://en.wikipedia.org/api/rest_v1/page/summary/${encodedQuery}`;
      try {
  // movie-ratings
  async (arg) => {
      const { title, year, plot } = arg;
      let queryUrl = `http://www.omdbapi.com/?apikey=${API_KEY}&t=${encodeURIComponent(title)}&plot=${plot || 'short'}`;
      if (year) queryUrl += `&y=${year}`;
      try {
  \<close>
  \<^verbatim>\<open>encodeURIComponent\<close> throws a \<^verbatim>\<open>URIError\<close> on a string with a lone surrogate, and
  such a string passes \<^verbatim>\<open>z.string()\<close>. The first argument of these three handlers
  (\<open>query\<close>, \<open>encodedQuery\<close>, \<open>queryUrl\<close>) is the outcome of that statement: the
  encoded text, or the error, which no \<^verbatim>\<open>catch\<close> of the handler sees and which leaves
  it (\<open>Inl\<close>). \<^verbatim>\<open>github-repo-info\<close> puts \<^verbatim>\<open>owner\<close> and \<^verbatim>\<open>repo\<close> into its address as
  they are, and nothing before its \<^verbatim>\<open>try\<close> can throw.

  The \<^verbatim>\<open>catch\<close> blocks are modelled as written:
  \<^verbatim>\<open>
  // news-by-topic
  } catch (err) {
      console.error('News fetch error:', err);
      return { content: [ { type: 'text', text: '(warning sign) Failed to retrieve news. Please try again later.' } ] };
  }
  // wikipedia-search
  } catch (err) {
      return { content: [{ type: 'text', text: 'An error occurred while trying to fetch Wikipedia data.' }] };
  }
  // github-repo-info
  } catch (err) {
      return { content: [{ type: 'text', text: `Failed to fetch repository info for ${owner}/${repo}` }] };
  }
  // movie-ratings
  } catch (err) {
      return { content: [{ type: 'text', text: `(warning sign) Failed to retrieve movie information. Please try again later.` }] };
  }
  \<close>
\<close>

definition news_by_topic :: "js_error + string \<Rightarrow> js_error + tool_result \<Rightarrow> js_error + tool_result" where
  "news_by_topic query attempt =
     (case query of
        Inl err \<Rightarrow> Inl err
      | Inr q \<Rightarrow>
          (case attempt of
             Inr res \<Rightarrow> Inr res
           | Inl err \<Rightarrow> Inr [Text (warning_sign @ '' Failed to retrieve news. Please try again later.'')]))"

text \<open>
  \<^verbatim>\<open>
  export async function createPost(status) {
      try {
          const tweet = await twitterClient.v2.tweet(status);
          return { content: [ { type: 'text', text: `Tweet sent successfully: ${tweet.data.id}` } ] };
      }
      catch (error) {
          return { content: [ { type: 'text', text: `Error sending tweet: ${error.message}` } ] };
      }
  }
  \<close>
  \<open>tweet\<close> is the outcome of the \<^verbatim>\<open>try\<close> block: the id of the tweet, or the error.
  The handler of \<^verbatim>\<open>twitter-X-post\<close> puts the text of the first block behind its own
  headline, whatever \<^verbatim>\<open>createPost\<close> returned:
  \<^verbatim>\<open>
  try {
      const result = await createPost(status);
      return { content: [ { type: 'text',
          text: `${FORMAT.GREEN}${FORMAT.BOLD}Tweet created successfully:${FORMAT.RESET} ${result.content[0].text}\n` } ] };
  } catch (err) {
      return { content: [ { type: 'text', text: `(warning sign) Error creating tweet: ${err.message}` } ] };
  }
  \<close>
  \<^verbatim>\<open>createPost\<close> never throws and always returns one block, so the \<^verbatim>\<open>catch\<close> of the
  handler could only see the \<^verbatim>\<open>TypeError\<close> of reading \<^verbatim>\<open>content[0].text\<close> from an
  empty content.
\<close>

definition createPost :: "string \<Rightarrow> js_error + string \<Rightarrow> tool_result" where
  "createPost status tweet =
     (case tweet of
        Inr tweet_id \<Rightarrow> [Text (''Tweet sent successfully: '' @ tweet_id)]
      | Inl (Error msg) \<Rightarrow> [Text (''Error sending tweet: '' @ msg)])"

definition twitter_X_post :: "string \<Rightarrow> js_error + string \<Rightarrow> tool_result" where
  "twitter_X_post status tweet =
     (case createPost status tweet of
        Text t # rest \<Rightarrow>
          [Text (FORMAT_GREEN @ FORMAT_BOLD @ ''Tweet created successfully:'' @ FORMAT_RESET @
                 '' '' @ t @ newline)]
      | [] \<Rightarrow>
          [Text (warning_sign @ '' Error creating tweet: '' @
                 ''Cannot read properties of undefined (reading '' @ [CHR 0x27] @ ''text'' @ [CHR 0x27] @ '')'')])"

definition wikipedia_search :: "js_error + string \<Rightarrow> js_error + tool_result \<Rightarrow> js_error + tool_result" where
  "wikipedia_search encodedQuery attempt =
     (case encodedQuery of
        Inl err \<Rightarrow> Inl err
      | Inr q \<Rightarrow>
          (case attempt of
             Inr res \<Rightarrow> Inr res
           | Inl err \<Rightarrow> Inr [Text ''An error occurred while trying to fetch Wikipedia data.'']))"

definition github_repo_info :: "string \<Rightarrow> string \<Rightarrow> js_error + tool_result \<Rightarrow> tool_result" where
  "github_repo_info owner repo attempt =
     (case attempt of
        Inr res \<Rightarrow> res
      | Inl err \<Rightarrow> [Text (''Failed to fetch repository info for '' @ owner @ ''/'' @ repo)])"

definition movie_ratings :: "js_error + string \<Rightarrow> js_error + tool_result \<Rightarrow> js_error + tool_result" where
  "movie_ratings queryUrl attempt =
     (case queryUrl of
        Inl err \<Rightarrow> Inl err
      | Inr q \<Rightarrow>
          (case attempt of
             Inr res \<Rightarrow> Inr res
           | Inl err \<Rightarrow>
               Inr [Text (warning_sign @ '' Failed to retrieve movie information. Please try again later.'')]))"

text \<open>
  \<^verbatim>\<open>local-file-search\<close> has two \<^verbatim>\<open>try\<close> blocks. The first is around
  \<^verbatim>\<open>fs.statSync(directory)\<close>, and its \<^verbatim>\<open>catch\<close> answers with a text of its own; the
  second is around the scan and the printing of the results, and its \<^verbatim>\<open>catch\<close> quotes
  the message:
  \<^verbatim>\<open>
  try {
      const stats = fs.statSync(directory);
      if (!stats.isDirectory()) {
          return { content: [{ type: 'text', text: `(cross mark) Error: "${directory}" is not a valid directory.` }] };
      }
  } catch (err) {
      return { content: [{ type: 'text', text: `(cross mark) Error: Directory "${directory}" not found or inaccessible.` }] };
  }
  ...
  try {
      await scanDirectory(directory);
      if (results.length === 0) {
          return { content: [{ type: 'text',
              text: `${FORMAT.CYAN}${FORMAT.BOLD}File Search Results${FORMAT.RESET}\n\n` +
                    `No files found matching "${searchTerm}" in ${directory}\n` +
                    `Search type: ${fileType}\n` +
                    `Files scanned: ${scannedFiles}` }] };
      }
      results.sort((a, b) => b.lastModified - a.lastModified);
      ...
      return { content: [{ type: 'text', text: resultText }] };
  } catch (err) {
      return { content: [{ type: 'text', text: `(warning sign) An error occurred during the file search: ${err.message}` }] };
  }
  \<close>
  \<open>root\<close> is what \<^verbatim>\<open>statSync\<close> finds at the directory, \<open>None\<close> when it throws.
  \<open>listing\<close> is the outcome of the statements that follow the scan when there are
  results (sorting them and printing the report, whose sizes go through floating point):
  the text of the report, or the error they throw, which the second \<^verbatim>\<open>catch\<close> sees as
  it sees the exception of the scan.
\<close>

fun fileType_name :: "fileType \<Rightarrow> string" where
  "fileType_name All = ''all''"
| "fileType_name Name = ''name''"
| "fileType_name Extension = ''extension''"
| "fileType_name Content = ''content''"

definition local_file_search_handler ::
    "string \<Rightarrow> string \<Rightarrow> dirent option \<Rightarrow> fileType \<Rightarrow> js_error + string \<Rightarrow> tool_result" where
  "local_file_search_handler searchTerm directory root ft listing =
     (case local_file_search searchTerm root ft of
        NotFound \<Rightarrow>
          [Text (cross_mark @ '' Error: Directory '' @ dquote @ directory @ dquote @
                 '' not found or inaccessible.'')]
      | NotADirectory \<Rightarrow>
          [Text (cross_mark @ '' Error: '' @ dquote @ directory @ dquote @ '' is not a valid directory.'')]
      | SearchError (Error msg) \<Rightarrow>
          [Text (warning_sign @ '' An error occurred during the file search: '' @ msg)]
      | NoFilesFound scanned \<Rightarrow>
          [Text (FORMAT_CYAN @ FORMAT_BOLD @ ''File Search Results'' @ FORMAT_RESET @ newline @ newline @
                 ''No files found matching '' @ dquote @ searchTerm @ dquote @ '' in '' @ directory @ newline @
                 ''Search type: '' @ fileType_name ft @ newline @
                 ''Files scanned: '' @ number_toString (int scanned))]
      | Found rs scanned matched \<Rightarrow>
          (case listing of
             Inr resultText \<Rightarrow> [Text resultText]
           | Inl (Error msg) \<Rightarrow>
               [Text (warning_sign @ '' An error occurred during the file search: '' @ msg)]))"

text \<open>
  \<^verbatim>\<open>truth_table\<close> evaluates each row with \<^verbatim>\<open>eval\<close>; \<open>attempt\<close> is the outcome of
  its \<^verbatim>\<open>try\<close> block, the header and body of the table or the error:
  \<^verbatim>\<open>
  text: `${FORMAT.GREEN}Truth Table:${FORMAT.RESET}\n${FORMAT.BOLD}${header}${body}${FORMAT.RESET}\n`
  } catch (e) {
  text: `${FORMAT.BOLD}Error:${FORMAT.RESET} Invalid boolean expression. ${e.message}`
  \<close>
  \<^verbatim>\<open>define_word\<close> has no \<^verbatim>\<open>try\<close>: an error of its \<^verbatim>\<open>fetch\<close> or of reading
  the answer leaves the handler.
\<close>

definition truth_table :: "string \<Rightarrow> js_error + string \<Rightarrow> tool_result" where
  "truth_table expression attempt =
     (case attempt of
        Inr table \<Rightarrow>
          [Text (FORMAT_GREEN @ ''Truth Table:'' @ FORMAT_RESET @ newline @
                 FORMAT_BOLD @ table @ FORMAT_RESET @ newline)]
      | Inl (Error msg) \<Rightarrow>
          [Text (FORMAT_BOLD @ ''Error:'' @ FORMAT_RESET @ '' Invalid boolean expression. '' @ msg)])"

definition define_word :: "string \<Rightarrow> js_error + tool_result \<Rightarrow> js_error + tool_result" where
  "define_word word attempt = attempt"

text \<open>
  A call of a tool: the arguments, as the schema lets them through, and the outcome of
  what the handler asks of the world outside. For \<^verbatim>\<open>local-file-search\<close> this is the
  directory tree, the error of \<^verbatim>\<open>statSync\<close> when the directory is not there
  (\<open>stat_error\<close>), and \<open>listing\<close>.

  \<^verbatim>\<open>truth_table\<close> hands the expression of the caller to \<^verbatim>\<open>eval\<close>, once for each row:
  \<^verbatim>\<open>
  const evaluate = (expr, assignment) => {
      const scopedExpr = expr.replace(/\b([A-Z])\b/g, (_, v) => assignment[v]);
      return eval(scopedExpr);
  };
  \<close>
  The text is evaluated inside the handler, within \<^verbatim>\<open>registerTools(server)\<close>, in the
  process of the server: whatever it does there is done before the \<^verbatim>\<open>try\<close> block
  ends, whether the block then returns the table or throws. A call of this tool carries,
  beside the outcome of the \<^verbatim>\<open>try\<close> block, what the evaluation does to the server
  (\<open>eval_effect\<close>): the state of the dispatcher it leaves, or \<open>None\<close> when it ends the
  process (\<^verbatim>\<open>process.exit()\<close>). For an expression that only computes a value it is
  \<open>Some\<close>. No other handler evaluates text of the caller, touches the table of sessions or
  ends the process.

  \<open>invoke\<close> runs the handler on the state of the dispatcher and returns what the handler
  returns, or the error that leaves it (\<open>Inl\<close>), with the state afterwards, \<open>None\<close> when
  the process has ended.
\<close>

datatype tool_call =
    PrintMenuCall "string option" "string list"
  | NewsByTopicCall string "js_error + string" "js_error + tool_result"
  | AdderCall int int
  | TwitterXPostCall string "js_error + string"
  | WikipediaSearchCall string "js_error + string" "js_error + tool_result"
  | GithubRepoInfoCall string string "js_error + tool_result"
  | MovieRatingsCall string "js_error + string" "js_error + tool_result"
  | LocalFileSearchCall string string "dirent option" js_error fileType "js_error + string"
  | TruthTableCall string "js_error + string" "dispatcher \<Rightarrow> dispatcher option"
  | DefineWordCall string "js_error + tool_result"

fun tool_of :: "tool_call \<Rightarrow> tool" where
  "tool_of (PrintMenuCall title items) = PrintMenu"
| "tool_of (NewsByTopicCall topic query attempt) = NewsByTopic"
| "tool_of (AdderCall a b) = Adder"
| "tool_of (TwitterXPostCall status tweet) = TwitterXPost"
| "tool_of (WikipediaSearchCall query encodedQuery attempt) = WikipediaSearch"
| "tool_of (GithubRepoInfoCall owner repo attempt) = GithubRepoInfo"
| "tool_of (MovieRatingsCall title queryUrl attempt) = MovieRatings"
| "tool_of (LocalFileSearchCall searchTerm directory root stat_error ft listing) = LocalFileSearch"
| "tool_of (TruthTableCall expression attempt eval_effect) = TruthTable"
| "tool_of (DefineWordCall word attempt) = DefineWord"

fun invoke :: "tool_call \<Rightarrow> dispatcher \<Rightarrow> (js_error + tool_result) \<times> dispatcher option" where
  "invoke (PrintMenuCall title items) d = (Inr (print_menu title items), Some d)"
| "invoke (NewsByTopicCall topic query attempt) d = (news_by_topic query attempt, Some d)"
| "invoke (AdderCall a b) d = (Inr (adder a b), Some d)"
| "invoke (TwitterXPostCall status tweet) d = (Inr (twitter_X_post status tweet), Some d)"
| "invoke (WikipediaSearchCall query encodedQuery attempt) d = (wikipedia_search encodedQuery attempt, Some d)"
| "invoke (GithubRepoInfoCall owner repo attempt) d = (Inr (github_repo_info owner repo attempt), Some d)"
| "invoke (MovieRatingsCall title queryUrl attempt) d = (movie_ratings queryUrl attempt, Some d)"
| "invoke (LocalFileSearchCall searchTerm directory root stat_error ft listing) d =
     (Inr (local_file_search_handler searchTerm directory root ft listing), Some d)"
| "invoke (TruthTableCall expression attempt eval_effect) d =
     (Inr (truth_table expression attempt), eval_effect d)"
| "invoke (DefineWordCall word attempt) d = (define_word word attempt, Some d)"

text \<open>
  \<open>failure\<close> is the error that occurs in a call, if any: the \<^verbatim>\<open>URIError\<close> of the
  statement before the \<^verbatim>\<open>try\<close>, else the error of the \<^verbatim>\<open>try\<close> block; for the file
  search the error of \<^verbatim>\<open>statSync\<close>, the exception of the scan, or the error of the
  statements after it.
\<close>

fun attempt_error :: "js_error + 'a \<Rightarrow> js_error option" where
  "attempt_error (Inl err) = Some err"
| "attempt_error (Inr x) = None"

fun failure_after :: "js_error + 'b \<Rightarrow> js_error + 'a \<Rightarrow> js_error option" where
  "failure_after (Inl err) attempt = Some err"
| "failure_after (Inr q) attempt = attempt_error attempt"

fun failure :: "tool_call \<Rightarrow> js_error option" where
  "failure (PrintMenuCall title items) = None"
| "failure (NewsByTopicCall topic query attempt) = failure_after query attempt"
| "failure (AdderCall a b) = None"
| "failure (TwitterXPostCall status tweet) = attempt_error tweet"
| "failure (WikipediaSearchCall query encodedQuery attempt) = failure_after encodedQuery attempt"
| "failure (GithubRepoInfoCall owner repo attempt) = attempt_error attempt"
| "failure (MovieRatingsCall title queryUrl attempt) = failure_after queryUrl attempt"
| "failure (LocalFileSearchCall searchTerm directory root stat_error ft listing) =
     (case local_file_search searchTerm root ft of
        NotFound \<Rightarrow> Some stat_error
      | SearchError err \<Rightarrow> Some err
      | Found rs scanned matched \<Rightarrow> attempt_error listing
      | _ \<Rightarrow> None)"
| "failure (TruthTableCall expression attempt eval_effect) = attempt_error attempt"
| "failure (DefineWordCall word attempt) = attempt_error attempt"

text \<open>
  Where a failure goes. It leaves the handler (\<open>escapes_handler\<close>) when it occurs outside
  every \<^verbatim>\<open>try\<close>: before the \<^verbatim>\<open>try\<close> of \<^verbatim>\<open>news-by-topic\<close>, \<^verbatim>\<open>wikipedia-search\<close>
  and \<^verbatim>\<open>movie-ratings\<close>, and anywhere in \<^verbatim>\<open>define_word\<close>. The answer quotes its message
  (\<open>reports_message\<close>) when it leaves the handler, or when the \<^verbatim>\<open>catch\<close> that sees it
  prints \<^verbatim>\<open>err.message\<close>: in \<^verbatim>\<open>createPost\<close>, in \<^verbatim>\<open>truth_table\<close> and in the second
  \<^verbatim>\<open>catch\<close> of \<^verbatim>\<open>local-file-search\<close>. In the other cases the \<^verbatim>\<open>catch\<close> that sees it
  answers with a text of its own (\<open>catch_text\<close>).
\<close>

fun thrown_before_try :: "js_error + 'a \<Rightarrow> bool" where
  "thrown_before_try (Inl err) = True"
| "thrown_before_try (Inr q) = False"

fun escapes_handler :: "tool_call \<Rightarrow> bool" where
  "escapes_handler (NewsByTopicCall topic query attempt) = thrown_before_try query"
| "escapes_handler (WikipediaSearchCall query encodedQuery attempt) = thrown_before_try encodedQuery"
| "escapes_handler (MovieRatingsCall title queryUrl attempt) = thrown_before_try queryUrl"
| "escapes_handler (DefineWordCall word attempt) = True"
| "escapes_handler other = False"

fun reports_message :: "tool_call \<Rightarrow> bool" where
  "reports_message (PrintMenuCall title items) = False"
| "reports_message (NewsByTopicCall topic query attempt) = thrown_before_try query"
| "reports_message (AdderCall a b) = False"
| "reports_message (TwitterXPostCall status tweet) = True"
| "reports_message (WikipediaSearchCall query encodedQuery attempt) = thrown_before_try encodedQuery"
| "reports_message (GithubRepoInfoCall owner repo attempt) = False"
| "reports_message (MovieRatingsCall title queryUrl attempt) = thrown_before_try queryUrl"
| "reports_message (LocalFileSearchCall searchTerm directory root stat_error ft listing) = (root \<noteq> None)"
| "reports_message (TruthTableCall expression attempt eval_effect) = True"
| "reports_message (DefineWordCall word attempt) = True"

fun catch_text :: "tool_call \<Rightarrow> string" where
  "catch_text (NewsByTopicCall topic query attempt) =
     warning_sign @ '' Failed to retrieve news. Please try again later.''"
| "catch_text (WikipediaSearchCall query encodedQuery attempt) =
     ''An error occurred while trying to fetch Wikipedia data.''"
| "catch_text (GithubRepoInfoCall owner repo attempt) =
     ''Failed to fetch repository info for '' @ owner @ ''/'' @ repo"
| "catch_text (MovieRatingsCall title queryUrl attempt) =
     warning_sign @ '' Failed to retrieve movie information. Please try again later.''"
| "catch_text (LocalFileSearchCall searchTerm directory root stat_error ft listing) =
     cross_mark @ '' Error: Directory '' @ dquote @ directory @ dquote @ '' not found or inaccessible.''"
| "catch_text other = []"

text \<open>
  Modelled from the spec: the dispatch boundary is in the SDK's \<^verbatim>\<open>McpServer\<close>, whose code
  is not part of the repository. The spec: "On handler success: wrap its returned content
  sequence verbatim into the response envelope. On handler failure (thrown error, rejected
  network call, etc.): capture the failure's message and return a single text content
  block describing the failure".
\<close>

definition answer :: "js_error + tool_result \<Rightarrow> tool_result" where
  "answer out = (case out of Inr res \<Rightarrow> res | Inl (Error msg) \<Rightarrow> [Text msg])"

text \<open>
  Modelled from the spec: the session that receives a tool call, which is in the SDK,
  resolves and invokes the tool and answers through the dispatch boundary. When the
  process has ended in the handler, there is no answer.
\<close>

definition call_tool :: "tool_call \<Rightarrow> dispatcher \<Rightarrow> (tool_result \<times> dispatcher) option" where
  "call_tool call d =
     (case invoke call d of
        (out, Some d') \<Rightarrow> Some (answer out, d')
      | (out, None) \<Rightarrow> None)"

text \<open>
  Modelled from the spec: the way of a tool call through the session, which is in the SDK.
  In the spec the dispatcher resolves the session of the inbound message, and the session
  parses the message as a tool call, looks up the registry entry, invokes the handler and
  wraps the outcome in the response envelope. A tool call reaches the server as a POST
  with the id of its session and a body that is not an initialize request; when the
  dispatcher hands it to a transport, the handler runs on the state the dispatcher is
  then in, and the answer is that of the dispatch boundary.
\<close>

definition tools_call ::
    "string \<Rightarrow> string option \<Rightarrow> tool_call \<Rightarrow> dispatcher \<Rightarrow>
       dispatcher option \<times> outcome \<times> tool_result option" where
  "tools_call uuid mcp_session_id call d =
     (case step uuid (POST mcp_session_id False) d of
        (d1, HandleRequest transport) \<Rightarrow>
          (case call_tool call d1 of
             Some (res, d2) \<Rightarrow> (Some d2, HandleRequest transport, Some res)
           | None \<Rightarrow> (None, HandleRequest transport, None))
      | (d1, out) \<Rightarrow> (Some d1, out, None))"

text \<open>Two failing calls, for the examples.\<close>

definition tweet_failure_text :: string where
  "tweet_failure_text =
     FORMAT_GREEN @ FORMAT_BOLD @ ''Tweet created successfully:'' @ FORMAT_RESET @
       '' Error sending tweet: boom'' @ newline"

definition failing_tweet :: tool_call where
  "failing_tweet = TwitterXPostCall ''hello'' (Inl (Error ''boom''))"

definition failing_news :: tool_call where
  "failing_news = NewsByTopicCall ''AI'' (Inr ''AI'') (Inl (Error ''boom''))"

section \<open>Results\<close>

subsection \<open>The session dispatcher\<close>

lemma is_uuid_length: "is_uuid s \<Longrightarrow> length s = 36"
  by (simp add: is_uuid_def)

lemma is_uuid_nonempty: "is_uuid s \<Longrightarrow> s \<noteq> []"
  by (auto dest: is_uuid_length)

lemma Object_prototype_length: "k \<in> set Object_prototype \<Longrightarrow> length k \<le> 20"
  by (auto simp: Object_prototype_def)

lemma is_uuid_not_inherited: "is_uuid s \<Longrightarrow> s \<notin> set Object_prototype"
proof
  assume u: "is_uuid s" and p: "s \<in> set Object_prototype"
  have "length s = 36" using u by (rule is_uuid_length)
  moreover have "length s \<le> 20" using p by (rule Object_prototype_length)
  ultimately show False by simp
qed

lemma handshake_effect:
  assumes "uuid \<noteq> []" "mcp_session_id = None \<or> mcp_session_id = Some []"
  shows "app_post mcp_session_id True uuid d =
           (\<lparr>heap = heap d @ [\<lparr>sessionId = Some uuid, closed = False\<rparr>],
             transports = (transports d)(uuid \<mapsto> length (heap d))\<rparr>,
            HandleRequest (length (heap d)))"
  using assms
  by (auto simp: app_post_def session_lookup_def Let_def handleRequest_def apply_transport_def
      transport_handleRequest_def new_transport_def onsessioninitialized_def)

lemma forward_unchanged:
  assumes "sessionId (heap d ! r) = Some sid" "m = Post b \<or> m = Get"
  shows "handleRequest r m uuid d = d"
  using assms
  by (auto simp: handleRequest_def apply_transport_def transport_handleRequest_def split: bool.splits)

lemma close_effect:
  assumes "sessionId (heap d ! r) = Some sid" "sid \<noteq> []" "r < length (heap d)"
  shows "apply_transport r (transport_close (heap d ! r)) d =
           \<lparr>heap = (heap d)[r := (heap d ! r)\<lparr>closed := True\<rparr>], transports = (transports d)(sid := None)\<rparr>"
  using assms
  by (simp add: apply_transport_def transport_close_def onclose_def)

lemma delete_effect:
  assumes "sessionId (heap d ! r) = Some sid" "sid \<noteq> []" "r < length (heap d)"
  shows "handleRequest r Delete uuid d =
           \<lparr>heap = (heap d)[r := (heap d ! r)\<lparr>closed := True\<rparr>], transports = (transports d)(sid := None)\<rparr>"
  using close_effect [OF assms] by (simp add: handleRequest_def transport_handleRequest_def)

lemma inv_initial: "dispatcher_inv initial"
  by (simp add: dispatcher_inv_def inv_table_def inv_heap_def inv_ids_def initial_def)

lemma fresh_uuid_heap: "fresh_uuid d uuid \<Longrightarrow> r < length (heap d) \<Longrightarrow> sessionId (heap d ! r) \<noteq> Some uuid"
  by (simp add: fresh_uuid_def list_all_length)

lemma fresh_uuid_table: "dispatcher_inv d \<Longrightarrow> fresh_uuid d uuid \<Longrightarrow> transports d uuid = None"
proof (rule ccontr)
  assume a: "dispatcher_inv d" "fresh_uuid d uuid" and "transports d uuid \<noteq> None"
  then obtain r where "transports d uuid = Some r" by auto
  with a(1) have "r < length (heap d)" "sessionId (heap d ! r) = Some uuid"
    by (simp_all add: dispatcher_inv_def inv_table_def)
  with fresh_uuid_heap [OF a(2)] show False by simp
qed

lemma inv_handshake:
  assumes "dispatcher_inv d" "fresh_uuid d uuid"
  shows "dispatcher_inv \<lparr>heap = heap d @ [\<lparr>sessionId = Some uuid, closed = False\<rparr>],
              transports = (transports d)(uuid \<mapsto> length (heap d))\<rparr>"
proof -
  let ?d = "\<lparr>heap = heap d @ [\<lparr>sessionId = Some uuid, closed = False\<rparr>],
              transports = (transports d)(uuid \<mapsto> length (heap d))\<rparr>"
  have u: "is_uuid uuid" using assms(2) by (simp add: fresh_uuid_def)
  have t: "inv_table d" and h: "inv_heap d" and i: "inv_ids d" using assms(1) by (simp_all add: dispatcher_inv_def)
  have "inv_table ?d"
    unfolding inv_table_def
  proof (intro allI impI)
    fix sid r assume a: "transports ?d sid = Some r"
    show "r < length (heap ?d) \<and> sessionId (heap ?d ! r) = Some sid \<and> \<not> closed (heap ?d ! r)"
    proof (cases "sid = uuid")
      case True
      with a have "r = length (heap d)" by simp
      with True show ?thesis by simp
    next
      case False
      with a have "transports d sid = Some r" by simp
      with t have "r < length (heap d) \<and> sessionId (heap d ! r) = Some sid \<and> \<not> closed (heap d ! r)"
        by (simp add: inv_table_def)
      then show ?thesis by (simp add: nth_append)
    qed
  qed
  moreover have "inv_heap ?d"
    unfolding inv_heap_def
  proof (intro allI impI)
    fix r assume a: "r < length (heap ?d)"
    show "\<exists>sid. sessionId (heap ?d ! r) = Some sid \<and> is_uuid sid \<and>
            (\<not> closed (heap ?d ! r) \<longrightarrow> transports ?d sid = Some r)"
    proof (cases "r < length (heap d)")
      case True
      with h obtain sid where s: "sessionId (heap d ! r) = Some sid" "is_uuid sid"
        "\<not> closed (heap d ! r) \<longrightarrow> transports d sid = Some r" by (auto simp: inv_heap_def)
      have "sid \<noteq> uuid" using fresh_uuid_heap [OF assms(2) True] s(1) by auto
      with s True show ?thesis by (simp add: nth_append)
    next
      case False
      with a have "r = length (heap d)" by simp
      with u show ?thesis by simp
    qed
  qed
  moreover have "inv_ids ?d"
    unfolding inv_ids_def
  proof (intro allI impI)
    fix r r' assume a: "r < length (heap ?d)" "r' < length (heap ?d)"
      "sessionId (heap ?d ! r) = sessionId (heap ?d ! r')"
    consider "r < length (heap d)" "r' < length (heap d)"
      | "r < length (heap d)" "r' = length (heap d)"
      | "r = length (heap d)" "r' < length (heap d)"
      | "r = length (heap d)" "r' = length (heap d)" using a(1,2) by fastforce
    then show "r = r'"
    proof cases
      case 1
      with a(3) have "sessionId (heap d ! r) = sessionId (heap d ! r')" by (simp add: nth_append)
      with i 1 show ?thesis by (simp add: inv_ids_def)
    next
      case 2
      with a(3) fresh_uuid_heap [OF assms(2) 2(1)] show ?thesis by (simp add: nth_append)
    next
      case 3
      with a(3) fresh_uuid_heap [OF assms(2) 3(2)] show ?thesis by (simp add: nth_append)
    next
      case 4
      then show ?thesis by simp
    qed
  qed
  ultimately show ?thesis by (simp add: dispatcher_inv_def)
qed

lemma inv_close:
  assumes "dispatcher_inv d" "r < length (heap d)" "sessionId (heap d ! r) = Some sid"
  shows "dispatcher_inv \<lparr>heap = (heap d)[r := (heap d ! r)\<lparr>closed := True\<rparr>], transports = (transports d)(sid := None)\<rparr>"
proof -
  let ?d = "\<lparr>heap = (heap d)[r := (heap d ! r)\<lparr>closed := True\<rparr>], transports = (transports d)(sid := None)\<rparr>"
  have t: "inv_table d" and h: "inv_heap d" and i: "inv_ids d" using assms(1) by (simp_all add: dispatcher_inv_def)
  have sel: "sessionId (heap ?d ! q) = sessionId (heap d ! q)" if "q < length (heap d)" for q
    using that by (cases "q = r") simp_all
  have "inv_table ?d"
    unfolding inv_table_def
  proof (intro allI impI)
    fix k q assume a: "transports ?d k = Some q"
    then have k: "k \<noteq> sid" and "transports d k = Some q" by (auto split: if_splits)
    with t have q: "q < length (heap d)" "sessionId (heap d ! q) = Some k" "\<not> closed (heap d ! q)"
      by (simp_all add: inv_table_def)
    with k assms(3) have "q \<noteq> r" by auto
    with q show "q < length (heap ?d) \<and> sessionId (heap ?d ! q) = Some k \<and> \<not> closed (heap ?d ! q)"
      by simp
  qed
  moreover have "inv_heap ?d"
    unfolding inv_heap_def
  proof (intro allI impI)
    fix q assume "q < length (heap ?d)"
    then have ql: "q < length (heap d)" by simp
    with h obtain k where s: "sessionId (heap d ! q) = Some k" "is_uuid k"
        "\<not> closed (heap d ! q) \<longrightarrow> transports d k = Some q" by (auto simp: inv_heap_def)
    show "\<exists>k. sessionId (heap ?d ! q) = Some k \<and> is_uuid k \<and>
            (\<not> closed (heap ?d ! q) \<longrightarrow> transports ?d k = Some q)"
    proof (cases "q = r")
      case True
      with s ql show ?thesis by simp
    next
      case False
      have "k \<noteq> sid"
      proof
        assume "k = sid"
        with s(1) assms(3) have "sessionId (heap d ! q) = sessionId (heap d ! r)" by simp
        with i ql assms(2) have "q = r" by (simp add: inv_ids_def)
        with False show False by simp
      qed
      with s False ql show ?thesis by simp
    qed
  qed
  moreover have "inv_ids ?d"
    unfolding inv_ids_def
  proof (intro allI impI)
    fix q q' assume a: "q < length (heap ?d)" "q' < length (heap ?d)"
      "sessionId (heap ?d ! q) = sessionId (heap ?d ! q')"
    then have "q < length (heap d)" "q' < length (heap d)" by simp_all
    moreover from this a(3) have "sessionId (heap d ! q) = sessionId (heap d ! q')"
      using sel by simp
    ultimately show "q = q'" using i by (simp add: inv_ids_def)
  qed
  ultimately show ?thesis by (simp add: dispatcher_inv_def)
qed


lemma session_lookup_Own:
  "session_lookup d mcp_session_id = Own r \<longleftrightarrow>
     (\<exists>sid. mcp_session_id = Some sid \<and> sid \<noteq> [] \<and> transports d sid = Some r)"
  by (auto simp: session_lookup_def get_property_def split: option.splits if_splits)

lemma session_lookup_Undefined:
  "session_lookup d mcp_session_id = Undefined \<longleftrightarrow>
     (mcp_session_id = None \<or> mcp_session_id = Some [] \<or>
      (\<exists>sid. mcp_session_id = Some sid \<and> transports d sid = None \<and> sid \<notin> set Object_prototype))"
  by (auto simp: session_lookup_def get_property_def split: option.splits if_splits)

lemma session_lookup_active:
  assumes "dispatcher_inv d" "transports d sid = Some r"
  shows "session_lookup d (Some sid) = Own r" "r < length (heap d)" "sessionId (heap d ! r) = Some sid"
    "sid \<noteq> []" "\<not> closed (heap d ! r)"
proof -
  from assms show r: "r < length (heap d)" and s: "sessionId (heap d ! r) = Some sid"
    and "\<not> closed (heap d ! r)"
    by (simp_all add: dispatcher_inv_def inv_table_def)
  from assms(1) r obtain k where "sessionId (heap d ! r) = Some k" "is_uuid k"
    by (auto simp: dispatcher_inv_def inv_heap_def)
  with s show n: "sid \<noteq> []" by (auto dest: is_uuid_nonempty)
  with assms(2) show "session_lookup d (Some sid) = Own r" by (simp add: session_lookup_Own)
qed

lemma inv_forward:
  assumes "dispatcher_inv d" "session_lookup d mcp_session_id = Own r" "m = Post b \<or> m = Get"
  shows "handleRequest r m uuid d = d"
proof -
  from assms(2) obtain sid where "transports d sid = Some r" by (auto simp: session_lookup_Own)
  from session_lookup_active(3) [OF assms(1) this] assms(3) show ?thesis by (rule forward_unchanged)
qed

lemma inv_delete:
  assumes "dispatcher_inv d" "transports d sid = Some r"
  shows "handleRequest r Delete uuid d =
           \<lparr>heap = (heap d)[r := (heap d ! r)\<lparr>closed := True\<rparr>], transports = (transports d)(sid := None)\<rparr>"
  using session_lookup_active [OF assms] by (intro delete_effect) simp_all

lemma inv_heap_id:
  assumes "dispatcher_inv d" "r < length (heap d)"
  obtains sid where "sessionId (heap d ! r) = Some sid" "sid \<noteq> []"
    "\<not> closed (heap d ! r) \<Longrightarrow> transports d sid = Some r"
proof -
  from assms obtain sid where "sessionId (heap d ! r) = Some sid" "is_uuid sid"
    "\<not> closed (heap d ! r) \<longrightarrow> transports d sid = Some r" by (auto simp: dispatcher_inv_def inv_heap_def)
  then show ?thesis using that by (auto dest: is_uuid_nonempty)
qed

lemma inv_step:
  assumes "dispatcher_inv d" "fresh_uuid d uuid"
  shows "dispatcher_inv (fst (step uuid e d))"
proof (cases e)
  case (POST mcp_session_id b)
  show ?thesis
  proof (cases "session_lookup d mcp_session_id")
    case (Own r)
    with POST inv_forward [OF assms(1) Own, of "Post b" b uuid] assms(1) show ?thesis
      by (simp add: app_post_def)
  next
    case Inherited
    with POST assms(1) show ?thesis by (simp add: app_post_def)
  next
    case Undefined
    show ?thesis
    proof (cases "(mcp_session_id = None \<or> mcp_session_id = Some []) \<and> b")
      case True
      have "uuid \<noteq> []" using assms(2) by (auto simp: fresh_uuid_def dest: is_uuid_nonempty)
      from handshake_effect [OF this, of mcp_session_id d] True POST inv_handshake [OF assms]
      show ?thesis by simp
    next
      case False
      with POST Undefined assms(1) show ?thesis by (auto simp: app_post_def)
    qed
  qed
next
  case (GET mcp_session_id)
  show ?thesis
  proof (cases "session_lookup d mcp_session_id")
    case (Own r)
    with GET inv_forward [OF assms(1) Own, of Get b uuid] assms(1) show ?thesis
      by (simp add: handleSessionRequest_def)
  qed (use GET assms(1) in \<open>simp_all add: handleSessionRequest_def\<close>)
next
  case (DELETE mcp_session_id)
  show ?thesis
  proof (cases "session_lookup d mcp_session_id")
    case (Own r)
    then obtain sid where t: "transports d sid = Some r" by (auto simp: session_lookup_Own)
    from inv_close [OF assms(1) session_lookup_active(2,3) [OF assms(1) t]] inv_delete [OF assms(1) t, of uuid]
      DELETE Own show ?thesis by (simp add: handleSessionRequest_def)
  qed (use DELETE assms(1) in \<open>simp_all add: handleSessionRequest_def\<close>)
next
  case (Close r)
  show ?thesis
  proof (cases "r < length (heap d)")
    case True
    from inv_heap_id [OF assms(1) True] obtain sid where
      s: "sessionId (heap d ! r) = Some sid" "sid \<noteq> []" by blast
    from close_effect [OF s True] inv_close [OF assms(1) True s(1)] Close True show ?thesis by simp
  next
    case False
    with Close assms(1) show ?thesis by simp
  qed
qed

lemma reachable_inv: "reachable d \<Longrightarrow> dispatcher_inv d"
  by (induction rule: reachable.induct) (simp_all add: inv_initial inv_step)


lemma app_post_rejected:
  assumes "session_lookup d mcp_session_id = Undefined" "\<not> ((mcp_session_id = None \<or> mcp_session_id = Some []) \<and> b)"
  shows "app_post mcp_session_id b uuid d = (d, Json 400 invalid_session)"
  using assms by (auto simp: app_post_def)

lemma handleSessionRequest_rejected:
  assumes "session_lookup d mcp_session_id = Undefined"
  shows "handleSessionRequest m mcp_session_id uuid d = (d, Send 400 ''Invalid or missing session ID'')"
  using assms by (simp add: handleSessionRequest_def)

lemma uuid_a_fresh: "fresh_uuid initial uuid_a"
  by code_simp

lemma uuid_a_handshake: "step uuid_a (POST None True) initial = (session_a_open, HandleRequest 0)"
proof -
  have "uuid_a \<noteq> []" by (simp add: uuid_a_def)
  from handshake_effect [OF this, of None initial] show ?thesis
    by (simp add: initial_def session_a_open_def)
qed

lemma session_a_open_reachable: "reachable session_a_open"
  using reachable.step [OF reachable.initial uuid_a_fresh, of "POST None True"]
  by (simp only: uuid_a_handshake fst_conv)

lemma uuid_b_fresh: "fresh_uuid session_a_open uuid_b"
  by code_simp

lemma uuid_a_delete: "step uuid_b (DELETE (Some uuid_a)) session_a_open = (session_a_closed, HandleRequest 0)"
proof -
  have t: "transports session_a_open uuid_a = Some 0" by (simp add: session_a_open_def)
  note i = reachable_inv [OF session_a_open_reachable]
  from inv_delete [OF i t, of uuid_b] session_lookup_active(1) [OF i t] show ?thesis
    by (simp add: handleSessionRequest_def) (simp add: session_a_open_def session_a_closed_def)
qed

lemma session_a_closed_reachable: "reachable session_a_closed"
  using reachable.step [OF session_a_open_reachable uuid_b_fresh, of "DELETE (Some uuid_a)"]
  by (simp only: uuid_a_delete fst_conv)
















text \<open>
  Claim C2, as amended. A session id that is missing, empty, or neither a key of the table
  nor a property name inherited from \<^verbatim>\<open>Object.prototype\<close> is rejected with status 400 and
  the table unchanged: a POST that is not a handshake (a handshake is an initialize
  request with no session id) gets the JSON envelope with code -32000, a GET or a DELETE
  gets the plain text "Invalid or missing session ID".
\<close>

theorem invalid_session_rejected:
  assumes "mcp_session_id = None \<or> mcp_session_id = Some [] \<or>
           (\<exists>sid. mcp_session_id = Some sid \<and> transports d sid = None \<and> sid \<notin> set Object_prototype)"
  shows "(\<not> ((mcp_session_id = None \<or> mcp_session_id = Some []) \<and> isInitializeRequest) \<longrightarrow>
            step uuid (POST mcp_session_id isInitializeRequest) d =
              (d, Json 400 \<lparr>jsonrpc = ''2.0'',
                            error = \<lparr>code = - 32000, message = ''Bad Request: No valid session ID provided''\<rparr>,
                            msg_id = None\<rparr>))
       \<and> step uuid (GET mcp_session_id) d = (d, Send 400 ''Invalid or missing session ID'')
       \<and> step uuid (DELETE mcp_session_id) d = (d, Send 400 ''Invalid or missing session ID'')"
proof -
  have u: "session_lookup d mcp_session_id = Undefined"
    using assms by (simp add: session_lookup_Undefined)
  show ?thesis
    using app_post_rejected [OF u] handleSessionRequest_rejected [OF u]
    by (simp add: invalid_session_def)
qed

theorem invalid_session_rejected_witness:
  "transports session_a_open uuid_b = None \<and> uuid_b \<notin> set Object_prototype
   \<and> step uuid_a (POST (Some uuid_b) False) session_a_open =
       (session_a_open, Json 400 \<lparr>jsonrpc = ''2.0'',
                            error = \<lparr>code = - 32000, message = ''Bad Request: No valid session ID provided''\<rparr>,
                            msg_id = None\<rparr>)
   \<and> step uuid_a (POST None False) session_a_open =
       (session_a_open, Json 400 \<lparr>jsonrpc = ''2.0'',
                            error = \<lparr>code = - 32000, message = ''Bad Request: No valid session ID provided''\<rparr>,
                            msg_id = None\<rparr>)
   \<and> step uuid_a (GET (Some uuid_b)) session_a_open = (session_a_open, Send 400 ''Invalid or missing session ID'')
   \<and> step uuid_a (DELETE (Some uuid_b)) session_a_open = (session_a_open, Send 400 ''Invalid or missing session ID'')"
proof -
  have a: "transports session_a_open uuid_b = None" by (simp add: session_a_open_def uuid_a_def uuid_b_def)
  have b: "uuid_b \<notin> set Object_prototype" by (simp add: uuid_b_def Object_prototype_def)
  from a b invalid_session_rejected [of "Some uuid_b" session_a_open False uuid_a]
    invalid_session_rejected [of None session_a_open False uuid_a]
  show ?thesis by simp
qed

text \<open>
  The claim as stated fails for the GET and DELETE requests: with no session id the answer
  is the plain text, not the JSON envelope.
\<close>

theorem get_rejection_is_not_the_envelope:
  "step uuid_a (GET None) initial = (initial, Send 400 ''Invalid or missing session ID'')
   \<and> snd (step uuid_a (GET None) initial) \<noteq> Json 400 invalid_session
   \<and> snd (step uuid_a (DELETE None) initial) \<noteq> Json 400 invalid_session"
  by (simp add: handleSessionRequest_def session_lookup_def)

text \<open>
  A session id that names a property every object inherits is no session of the table,
  and is not rejected either: the lookup is truthy and the call of \<^verbatim>\<open>handleRequest\<close>
  throws.
\<close>

lemma inherited_property_lookup:
  "transports initial ''toString'' = None
   \<and> step uuid_a (POST (Some ''toString'') False) initial = (initial, TypeError)
   \<and> step uuid_a (GET (Some ''constructor'')) initial = (initial, TypeError)"
  by (simp add: app_post_def handleSessionRequest_def session_lookup_def get_property_def
      Object_prototype_def initial_def)


lemma terminate_effect:
  assumes "dispatcher_inv d" "transports d sid = Some r" "e = DELETE (Some sid) \<or> e = Close r"
  shows "fst (step uuid e d) =
           \<lparr>heap = (heap d)[r := (heap d ! r)\<lparr>closed := True\<rparr>], transports = (transports d)(sid := None)\<rparr>"
    and "snd (step uuid e d) = (if e = Close r then NoResponse else HandleRequest r)"
proof -
  note a = session_lookup_active [OF assms(1,2)]
  have c: "apply_transport r (transport_close (heap d ! r)) d =
           \<lparr>heap = (heap d)[r := (heap d ! r)\<lparr>closed := True\<rparr>], transports = (transports d)(sid := None)\<rparr>"
    using a(3,4,2) by (rule close_effect)
  show "fst (step uuid e d) =
           \<lparr>heap = (heap d)[r := (heap d ! r)\<lparr>closed := True\<rparr>], transports = (transports d)(sid := None)\<rparr>"
    using assms(3) a(1,2) c inv_delete [OF assms(1,2), of uuid]
    by (auto simp: handleSessionRequest_def)
  show "snd (step uuid e d) = (if e = Close r then NoResponse else HandleRequest r)"
    using assms(3) a(1,2) by (auto simp: handleSessionRequest_def)
qed

text \<open>
  Claim C3. In every reachable state, terminating an active session, by a DELETE request
  with its id or by the closure of its transport, removes exactly its entry from the
  table and marks it closed, without throwing. Afterwards every request with the same id
  is rejected with status 400 and changes nothing (the envelope for a POST, the plain
  text for a GET and for a second DELETE), and a second closure of the transport changes
  nothing.
\<close>

theorem termination_removes_session:
  assumes "reachable d" and "transports d sid = Some r"
    and "e = DELETE (Some sid) \<or> e = Close r"
    and "step uuid e d = (d', out)"
  shows "transports d' = (transports d)(sid := None)
       \<and> heap d' = (heap d)[r := (heap d ! r)\<lparr>closed := True\<rparr>]
       \<and> out \<noteq> TypeError
       \<and> (\<forall>u b. step u (POST (Some sid) b) d' = (d', Json 400 invalid_session))
       \<and> (\<forall>u. step u (GET (Some sid)) d' = (d', Send 400 ''Invalid or missing session ID''))
       \<and> (\<forall>u. step u (DELETE (Some sid)) d' = (d', Send 400 ''Invalid or missing session ID''))
       \<and> (\<forall>u. step u (Close r) d' = (d', NoResponse))"
proof -
  note i = reachable_inv [OF assms(1)]
  note a = session_lookup_active [OF i assms(2)]
  have d': "d' = \<lparr>heap = (heap d)[r := (heap d ! r)\<lparr>closed := True\<rparr>], transports = (transports d)(sid := None)\<rparr>"
    using terminate_effect(1) [OF i assms(2,3), of uuid] assms(4) by simp
  have out: "out \<noteq> TypeError"
    using terminate_effect(2) [OF i assms(2,3), of uuid] assms(4) by (simp split: if_splits)
  have "is_uuid sid"
    using i a(2,3) by (auto simp: dispatcher_inv_def inv_heap_def)
  then have "sid \<notin> set Object_prototype" by (rule is_uuid_not_inherited)
  then have u: "session_lookup d' (Some sid) = Undefined"
    by (simp add: session_lookup_Undefined d')
  have p: "\<forall>u b. step u (POST (Some sid) b) d' = (d', Json 400 invalid_session)"
    using app_post_rejected [OF u] a(4) by simp
  have g: "\<forall>u. step u (GET (Some sid)) d' = (d', Send 400 ''Invalid or missing session ID'')"
    using handleSessionRequest_rejected [OF u] by simp
  have dl: "\<forall>u. step u (DELETE (Some sid)) d' = (d', Send 400 ''Invalid or missing session ID'')"
    using handleSessionRequest_rejected [OF u] by simp
  have r': "r < length (heap d')" "sessionId (heap d' ! r) = Some sid" using a(2,3) by (simp_all add: d')
  have "apply_transport r (transport_close (heap d' ! r)) d' =
           \<lparr>heap = (heap d')[r := (heap d' ! r)\<lparr>closed := True\<rparr>], transports = (transports d')(sid := None)\<rparr>"
    using r'(2) a(4) r'(1) by (rule close_effect)
  also have "\<dots> = d'" using a(2) by (simp add: d')
  finally have c: "\<forall>u. step u (Close r) d' = (d', NoResponse)" using r'(1) by simp
  show ?thesis using d' out p g dl c by simp
qed

theorem termination_removes_session_witness:
  "reachable session_a_open \<and> transports session_a_open uuid_a = Some 0
   \<and> step uuid_b (DELETE (Some uuid_a)) session_a_open = (session_a_closed, HandleRequest 0)
   \<and> transports session_a_closed uuid_a = None
   \<and> step uuid_b (POST (Some uuid_a) True) session_a_closed = (session_a_closed, Json 400 invalid_session)
   \<and> step uuid_b (GET (Some uuid_a)) session_a_closed = (session_a_closed, Send 400 ''Invalid or missing session ID'')
   \<and> step uuid_b (DELETE (Some uuid_a)) session_a_closed = (session_a_closed, Send 400 ''Invalid or missing session ID'')
   \<and> step uuid_b (Close 0) session_a_closed = (session_a_closed, NoResponse)"
proof -
  have t: "transports session_a_open uuid_a = Some 0" by (simp add: session_a_open_def)
  have n: "transports session_a_closed uuid_a = None" by (simp add: session_a_closed_def)
  note th = termination_removes_session [OF session_a_open_reachable t disjI1 [OF refl] uuid_a_delete]
  from th have "step uuid_b (POST (Some uuid_a) True) session_a_closed = (session_a_closed, Json 400 invalid_session)"
    by blast
  moreover from th have "step uuid_b (GET (Some uuid_a)) session_a_closed =
      (session_a_closed, Send 400 ''Invalid or missing session ID'')"
    by blast
  moreover from th have "step uuid_b (DELETE (Some uuid_a)) session_a_closed =
      (session_a_closed, Send 400 ''Invalid or missing session ID'')"
    by blast
  moreover from th have "step uuid_b (Close 0) session_a_closed = (session_a_closed, NoResponse)"
    by blast
  ultimately show ?thesis using session_a_open_reachable t uuid_a_delete n by blast
qed

text \<open>
  Claim C4. In every reachable state the table refers only to sessions that exist, and a
  session is in the table if and only if it is not closed.
\<close>

theorem table_holds_the_open_sessions:
  assumes "reachable d"
  shows "(\<forall>sid r. transports d sid = Some r \<longrightarrow> r < length (heap d))
       \<and> (\<forall>r < length (heap d). (\<exists>sid. transports d sid = Some r) \<longleftrightarrow> \<not> closed (heap d ! r))"
proof -
  note i = reachable_inv [OF assms]
  have "\<forall>sid r. transports d sid = Some r \<longrightarrow> r < length (heap d)"
    using i by (simp add: dispatcher_inv_def inv_table_def)
  moreover have "\<forall>r < length (heap d). (\<exists>sid. transports d sid = Some r) \<longleftrightarrow> \<not> closed (heap d ! r)"
  proof (intro allI impI)
    fix r assume r: "r < length (heap d)"
    show "(\<exists>sid. transports d sid = Some r) \<longleftrightarrow> \<not> closed (heap d ! r)"
    proof
      assume "\<exists>sid. transports d sid = Some r"
      then obtain sid where "transports d sid = Some r" ..
      from session_lookup_active(5) [OF i this] show "\<not> closed (heap d ! r)" .
    next
      assume "\<not> closed (heap d ! r)"
      with inv_heap_id [OF i r] show "\<exists>sid. transports d sid = Some r" by metis
    qed
  qed
  ultimately show ?thesis by simp
qed

theorem table_holds_the_open_sessions_witness:
  "reachable session_a_open \<and> transports session_a_open uuid_a = Some 0
     \<and> \<not> closed (heap session_a_open ! 0)
   \<and> reachable session_a_closed \<and> closed (heap session_a_closed ! 0)
     \<and> \<not> (\<exists>sid. transports session_a_closed sid = Some 0)"
proof -
  have "length (heap session_a_open) = 1" "length (heap session_a_closed) = 1"
    "transports session_a_open uuid_a = Some 0" "closed (heap session_a_closed ! 0)"
    by (simp_all add: session_a_open_def session_a_closed_def)
  with table_holds_the_open_sessions [OF session_a_open_reachable]
    table_holds_the_open_sessions [OF session_a_closed_reachable]
    session_a_open_reachable session_a_closed_reachable
  show ?thesis by auto
qed


subsection \<open>The adder scenario\<close>

lemma str_includes_append: "str_includes (pre @ t @ post) t"
proof (induction pre)
  case Nil
  have "prefix t (t @ post)" by simp
  then show ?case by (cases "t @ post") auto
next
  case (Cons a pre)
  then show ?case by simp
qed

text \<open>
  Claim C7. Invoking the adder handler with \<open>a = 2\<close> and \<open>b = 3\<close> returns one text block,
  the sentence "Result: The sum of 2 and 3 is 5." with its colour codes, and that text
  contains the string "5".
\<close>

theorem adder_2_3:
  "adder 2 3 =
     [Text (FORMAT_GREEN @ ''Result:'' @ FORMAT_RESET @ '' The sum of '' @
            FORMAT_BOLD @ ''2'' @ FORMAT_RESET @ '' and '' @
            FORMAT_BOLD @ ''3'' @ FORMAT_RESET @ '' is '' @
            FORMAT_CYAN @ ''5'' @ FORMAT_RESET @ ''.'' @ [CHR 0x0A])]
   \<and> (\<exists>c. c \<in> set (adder 2 3) \<and> str_includes (text_of c) ''5'')"
proof -
  have eq: "adder 2 3 =
     [Text (FORMAT_GREEN @ ''Result:'' @ FORMAT_RESET @ '' The sum of '' @
            FORMAT_BOLD @ ''2'' @ FORMAT_RESET @ '' and '' @
            FORMAT_BOLD @ ''3'' @ FORMAT_RESET @ '' is '' @
            FORMAT_CYAN @ ''5'' @ FORMAT_RESET @ ''.'' @ [CHR 0x0A])]"
    by code_simp
  have "str_includes ((FORMAT_GREEN @ ''Result:'' @ FORMAT_RESET @ '' The sum of '' @
            FORMAT_BOLD @ ''2'' @ FORMAT_RESET @ '' and '' @
            FORMAT_BOLD @ ''3'' @ FORMAT_RESET @ '' is '' @
            FORMAT_CYAN) @ ''5'' @ (FORMAT_RESET @ ''.'' @ [CHR 0x0A])) ''5''"
    by (rule str_includes_append)
  then show ?thesis
    unfolding eq by simp
qed

subsection \<open>The truth table tool\<close>

lemma occ_Nil: "occ prev [] = {}" by (simp add: occ_def)

lemma occ_Cons: "occ prev (c # cs) =
   (if isUpper c \<and> boundary prev \<and> boundary (case cs of [] \<Rightarrow> None | d # _ \<Rightarrow> Some d) then {c} else {}) \<union> occ (Some c) cs"
proof -
  have "\<And>x. x \<in> occ prev (c # cs) \<longleftrightarrow> x \<in> (if isUpper c \<and> boundary prev \<and> boundary (case cs of [] \<Rightarrow> None | d # _ \<Rightarrow> Some d) then {c} else {}) \<union> occ (Some c) cs"
  proof
    fix x assume "x \<in> occ prev (c # cs)"
    then obtain pre post where d: "c # cs = pre @ x # post" "isUpper x"
       "boundary (if pre = [] then prev else Some (last pre))"
       "boundary (case post of [] \<Rightarrow> None | d # _ \<Rightarrow> Some d)" by (auto simp: occ_def)
    show "x \<in> (if isUpper c \<and> boundary prev \<and> boundary (case cs of [] \<Rightarrow> None | d # _ \<Rightarrow> Some d) then {c} else {}) \<union> occ (Some c) cs"
    proof (cases pre)
      case Nil
      with d show ?thesis by auto
    next
      case (Cons p pre')
      with d have "cs = pre' @ x # post" "p = c" by auto
      moreover have "boundary (if pre' = [] then Some c else Some (last pre'))" using d(3) Cons \<open>p = c\<close> by (auto split: if_splits)
      ultimately have "x \<in> occ (Some c) cs" using d(2,4) unfolding occ_def by blast
      then show ?thesis by simp
    qed
  next
    fix x assume a: "x \<in> (if isUpper c \<and> boundary prev \<and> boundary (case cs of [] \<Rightarrow> None | d # _ \<Rightarrow> Some d) then {c} else {}) \<union> occ (Some c) cs"
    show "x \<in> occ prev (c # cs)"
    proof (cases "x \<in> occ (Some c) cs")
      case True
      then obtain pre post where d: "cs = pre @ x # post" "isUpper x"
       "boundary (if pre = [] then Some c else Some (last pre))"
       "boundary (case post of [] \<Rightarrow> None | d # _ \<Rightarrow> Some d)" by (auto simp: occ_def)
      have "c # cs = (c # pre) @ x # post" using d by simp
      moreover have "boundary (if c # pre = [] then prev else Some (last (c # pre)))" using d(3) by (auto split: if_splits)
      ultimately show ?thesis using d(2,4) unfolding occ_def by blast
    next
      case False
      with a have "x = c" "isUpper c" "boundary prev" "boundary (case cs of [] \<Rightarrow> None | d # _ \<Rightarrow> Some d)" by (auto split: if_splits)
      then have "c # cs = [] @ x # cs \<and> isUpper x \<and> boundary (if ([]::string) = [] then prev else Some (last [])) \<and> boundary (case cs of [] \<Rightarrow> None | d # _ \<Rightarrow> Some d)" by simp
      then show ?thesis unfolding occ_def by blast
    qed
  qed
  then show ?thesis by blast
qed

lemma set_matchAll: "set (matchAll prev cs) = occ prev cs"
  by (induction cs arbitrary: prev) (simp_all add: occ_Nil occ_Cons)

lemma boundary_before: "boundary (if pre = [] then None else Some (last pre)) = (pre = [] \<or> \<not> isWordChar (last pre))"
  by (simp add: boundary_def)

lemma boundary_after: "boundary (case post of [] \<Rightarrow> None | d # _ \<Rightarrow> Some d) = (post = [] \<or> \<not> isWordChar (hd post))"
  by (cases post) (simp_all add: boundary_def)

lemma variables_occ: "variables e = occ None e"
  by (simp add: variables_def occ_def boundary_before boundary_after)

lemma fold_Set_add: "set (fold Set_add xs acc) = set acc \<union> set xs \<and> (distinct acc \<longrightarrow> distinct (fold Set_add xs acc))"
  by (induction xs arbitrary: acc) (auto simp: Set_add_def)

lemma new_Set_props: "set (new_Set xs) = set xs" "distinct (new_Set xs)"
  using fold_Set_add [of xs "[]"] by (simp_all add: new_Set_def)

lemma extractVariables_set: "set (extractVariables e) = variables e"
  by (simp add: extractVariables_def new_Set_props set_matchAll variables_occ)

lemma extractVariables_distinct: "distinct (extractVariables e)"
  by (simp add: extractVariables_def new_Set_props)

lemma extractVariables_sorted: "sorted (map of_char (extractVariables e) :: nat list)"
  by (simp add: extractVariables_def)

lemma upper_card: "card {c. isUpper c} \<le> 26"
proof -
  have "{c. isUpper c} \<subseteq> char_of ` {65..90::nat}"
  proof
    fix c assume "c \<in> {c. isUpper c}"
    then have "(of_char c :: nat) \<in> {65..90}" by (simp add: isUpper_def)
    then have "char_of (of_char c :: nat) \<in> char_of ` {65..90::nat}" by (rule imageI)
    then show "c \<in> char_of ` {65..90::nat}" by simp
  qed
  then have "card {c. isUpper c} \<le> card (char_of ` {65..90::nat} :: char set)"
    by (intro card_mono) simp_all
  also have "\<dots> \<le> card {65..90::nat}" by (rule card_image_le) simp
  finally show ?thesis by simp
qed

lemma variables_upper: "variables e \<subseteq> {c. isUpper c}"
  by (auto simp: variables_def)

lemma variables_finite: "finite (variables e)"
  using extractVariables_set [of e] by (metis List.finite_set)

lemma extractVariables_length: "length (extractVariables e) = card (variables e)"
  using distinct_card [OF extractVariables_distinct, of e] by (simp add: extractVariables_set)

lemma variables_card: "card (variables e) \<le> 26"
proof -
  have "card (variables e) \<le> card {c. isUpper c}"
    by (rule card_mono) (simp_all add: variables_upper)
  with upper_card show ?thesis by linarith
qed

lemma shl_1_small: "n \<le> 26 \<Longrightarrow> nat (shl_1 n) = 2 ^ n"
  by (simp add: shl_1_def nat_power_eq)

lemma fold_row_lookup:
  "distinct vars \<Longrightarrow> k \<le> length vars \<Longrightarrow> j < k \<Longrightarrow>
     fold (\<lambda>j row. row(vars ! j \<mapsto> f j)) [0..<k] m (vars ! j) = Some (f j)"
proof (induction k)
  case 0
  then show ?case by simp
next
  case (Suc k)
  show ?case
  proof (cases "j = k")
    case True
    then show ?thesis by simp
  next
    case False
    with Suc.prems have jk: "j < k" "k < length vars" by simp_all
    then have "vars ! j \<noteq> vars ! k" using Suc.prems(1) False by (simp add: nth_eq_iff_index_eq)
    then show ?thesis using Suc.IH [OF Suc.prems(1)] jk by simp
  qed
qed

lemma fold_row_dom:
  "k \<le> length vars \<Longrightarrow>
     dom (fold (\<lambda>j row. row(vars ! j \<mapsto> f j)) [0..<k] m) = dom m \<union> set (take k vars)"
  by (induction k) (auto simp: take_Suc_conv_app_nth)

lemma row_bits_fold:
  assumes "distinct vars"
  shows "row_bits vars (fold (\<lambda>j row. row(vars ! j \<mapsto> f j)) [0..<length vars] Map.empty) = map f [0..<length vars]"
proof -
  have "row_bits vars (fold (\<lambda>j row. row(vars ! j \<mapsto> f j)) [0..<length vars] Map.empty)
      = map (\<lambda>j. (fold (\<lambda>j row. row(vars ! j \<mapsto> f j)) [0..<length vars] Map.empty) (vars ! j) = Some True) [0..<length vars]"
    unfolding row_bits_def by (subst (3) map_nth [symmetric, of vars]) (simp only: map_map o_def)
  also have "\<dots> = map f [0..<length vars]"
  proof (rule map_cong [OF refl])
    fix j assume "j \<in> set [0..<length vars]"
    then have "j < length vars" by simp
    from fold_row_lookup [OF assms le_refl this, of f Map.empty]
    show "(fold (\<lambda>j row. row(vars ! j \<mapsto> f j)) [0..<length vars] Map.empty (vars ! j) = Some True) = f j"
      by simp
  qed
  finally show ?thesis .
qed

lemma binary_value_snoc: "binary_value (bs @ [b]) = 2 * binary_value bs + of_bool b"
  by (simp add: binary_value_def)

lemma shr_and_1_small: "k < 32 \<Longrightarrow> shr_and_1 i k = odd (i div 2 ^ k)"
  by (simp add: shr_and_1_def odd_iff_mod_2_eq_one)

lemma double_half: "2 * (x div 2) + of_bool (odd x) = (x::nat)"
  by (cases "odd x") (auto elim: oddE)

lemma binary_value_shift:
  "i < 2 ^ n \<Longrightarrow> n \<le> 26 \<Longrightarrow> k \<le> n \<Longrightarrow>
     binary_value (map (\<lambda>j. shr_and_1 i (n - j - 1)) [0..<k]) = i div 2 ^ (n - k)"
proof (induction k)
  case 0
  then show ?case by (simp add: binary_value_def)
next
  case (Suc k)
  then have eq: "n - k = Suc (n - k - 1)" and small: "n - k - 1 < 32" by simp_all
  have half: "i div 2 ^ (n - k) = (i div 2 ^ (n - k - 1)) div 2"
    by (subst eq) (simp only: power_Suc2 div_mult2_eq)
  have "binary_value (map (\<lambda>j. shr_and_1 i (n - j - 1)) [0..<Suc k])
      = 2 * binary_value (map (\<lambda>j. shr_and_1 i (n - j - 1)) [0..<k]) + of_bool (shr_and_1 i (n - k - 1))"
    by (simp add: binary_value_snoc)
  also have "\<dots> = 2 * (i div 2 ^ (n - k)) + of_bool (odd (i div 2 ^ (n - k - 1)))"
    using Suc by (simp only: shr_and_1_small [OF small])
  also have "\<dots> = i div 2 ^ (n - k - 1)"
    unfolding half by (rule double_half)
  finally show ?case by simp
qed

lemma combination_row:
  assumes "distinct vars" "length vars \<le> 26" "i < 2 ^ length vars"
  shows "binary_value (row_bits vars (fold (\<lambda>j row. row(vars ! j \<mapsto> shr_and_1 i (length vars - j - 1))) [0..<length vars] Map.empty)) = i"
  unfolding row_bits_fold [OF assms(1)]
  using binary_value_shift [OF assms(3) assms(2) le_refl] by simp

lemma generateCombinations_numbers:
  assumes "distinct vars" "length vars \<le> 26"
  shows "map (\<lambda>row. binary_value (row_bits vars row)) (generateCombinations vars) = [0..<2 ^ length vars]"
proof -
  have "map (\<lambda>row. binary_value (row_bits vars row)) (generateCombinations vars)
      = map (\<lambda>i. i) [0..<2 ^ length vars]"
    unfolding generateCombinations_def Let_def shl_1_small [OF assms(2)] map_map o_def
  proof (rule map_cong [OF refl])
    fix i assume "i \<in> set [0..<2 ^ length vars]"
    then have "i < 2 ^ length vars" by simp
    then show "binary_value (row_bits vars (fold (\<lambda>j row. row(vars ! j \<mapsto> shr_and_1 i (length vars - j - 1))) [0..<length vars] Map.empty)) = i"
      by (rule combination_row [OF assms])
  qed
  then show ?thesis by simp
qed

lemma generateCombinations_dom:
  assumes "length vars \<le> 26"
  shows "map dom (generateCombinations vars) = replicate (2 ^ length vars) (set vars)"
  unfolding generateCombinations_def Let_def shl_1_small [OF assms] map_map o_def
  by (simp add: fold_row_dom map_replicate_const)

text \<open>
  Claim C10. For every expression, the variables the tool extracts are the distinct
  stand-alone capital letters of the expression, sorted by character code (alphabetically);
  with \<open>n\<close> such variables the tool enumerates exactly \<open>2 ^ n\<close> rows, every row assigns
  exactly these variables, and the rows read as binary numerals with the first variable
  as the most significant bit are \<open>0, 1, ..., 2 ^ n - 1\<close> in this order.
\<close>

theorem truth_table_rows:
  "sorted (map of_char (extractVariables e) :: nat list)
   \<and> distinct (extractVariables e)
   \<and> set (extractVariables e) = variables e
   \<and> length (generateCombinations (extractVariables e)) = 2 ^ card (variables e)
   \<and> map (\<lambda>row. binary_value (row_bits (extractVariables e) row)) (generateCombinations (extractVariables e))
       = [0..<2 ^ card (variables e)]
   \<and> map dom (generateCombinations (extractVariables e)) = replicate (2 ^ card (variables e)) (variables e)"
proof -
  let ?vars = "extractVariables e"
  have len: "length ?vars = card (variables e)" by (rule extractVariables_length)
  have le: "length ?vars \<le> 26" using variables_card [of e] by (simp add: len)
  have n: "map (\<lambda>row. binary_value (row_bits ?vars row)) (generateCombinations ?vars) = [0..<2 ^ card (variables e)]"
    using generateCombinations_numbers [OF extractVariables_distinct le] by (simp add: len)
  have d: "map dom (generateCombinations ?vars) = replicate (2 ^ card (variables e)) (variables e)"
    using generateCombinations_dom [OF le] by (simp add: len extractVariables_set)
  have l: "length (generateCombinations ?vars) = 2 ^ card (variables e)"
    using arg_cong [OF d, of length] by simp
  show ?thesis
    using extractVariables_sorted extractVariables_distinct extractVariables_set n d l by blast
qed

theorem truth_table_rows_witness:
  "extractVariables ''C || !A && B || A'' = ''ABC''
   \<and> card (variables ''C || !A && B || A'') = 3
   \<and> map (row_bits ''ABC'') (generateCombinations ''ABC'') =
       [[False, False, False], [False, False, True], [False, True, False], [False, True, True],
        [True, False, False], [True, False, True], [True, True, False], [True, True, True]]"
proof -
  have v: "extractVariables ''C || !A && B || A'' = ''ABC''" by code_simp
  have "variables ''C || !A && B || A'' = set ''ABC''"
    using truth_table_rows [of "''C || !A && B || A''"] unfolding v by simp
  then have c: "card (variables ''C || !A && B || A'') = 3"
    by simp
  have r: "map (row_bits ''ABC'') (generateCombinations ''ABC'') =
       [[False, False, False], [False, False, True], [False, True, False], [False, True, True],
        [True, False, False], [True, False, True], [True, True, False], [True, True, True]]"
    by code_simp
  show ?thesis using v c r by simp
qed


subsection \<open>The local file search tool\<close>

lemma visitFile_results:
  "length (results (visitFile ft t dir fname content st s)) \<le> Suc (length (results s))"
  by (simp add: visitFile_def Let_def)

lemma scanDirectory_cap:
  "scanDirectory ft t dir files s = Inr s' \<Longrightarrow> length (results s) < 20 \<Longrightarrow> length (results s') \<le> 20"
proof (induction ft t dir files s arbitrary: s' rule: scanDirectory.induct)
  case (1 ft t dir s)
  then show ?case by simp
next
  case (2 ft t dir fname children files s)
  show ?case
  proof (cases "fname \<noteq> ''node_modules'' \<and> fname \<noteq> ''.git''")
    case True
    show ?thesis
    proof (cases "scanDirectory ft t (dir @ [fname]) children s")
      case (Inl e)
      with True "2.prems" show ?thesis by simp
    next
      case (Inr b)
      have b20: "length (results b) \<le> 20" using "2.IH"(1) [OF True Inr "2.prems"(2)] .
      show ?thesis
      proof (cases "20 \<le> length (results b)")
        case big: True
        with True Inr "2.prems" b20 show ?thesis by simp
      next
        case small: False
        then have "scanDirectory ft t dir files b = Inr s'" using True Inr "2.prems" by simp
        from "2.IH"(2) [OF True Inr small this] small show ?thesis by simp
      qed
    qed
  next
    case False
    with "2.prems" have "scanDirectory ft t dir files s = Inr s'" by (simp split: if_splits)
    from "2.IH"(3) [OF False _ this] "2.prems"(2) show ?thesis by simp
  qed
next
  case (3 ft t dir fname err files s)
  then show ?case by (simp split: if_splits)
next
  case (4 ft t dir fname content st files s)
  let ?x = "visitFile ft t dir fname content st s"
  have x: "length (results ?x) \<le> 20" using visitFile_results [of ft t dir fname content st s] "4.prems"(2) by simp
  show ?case
  proof (cases "20 \<le> length (results ?x)")
    case True
    with "4.prems" x show ?thesis by (simp add: Let_def)
  next
    case False
    then have "scanDirectory ft t dir files ?x = Inr s'" using "4.prems" by (simp add: Let_def)
    from "4.IH" [OF refl False this] False show ?thesis by simp
  qed
qed

lemma results_of_cap: "length (results_of (local_file_search t root ft)) \<le> 20"
proof (cases "(t, root, ft)" rule: local_file_search.cases)
  case (4 searchTerm fname files ft')
  show ?thesis
  proof (cases "scanDirectory ft t [] files init_scan")
    case (Inl e)
    with 4 show ?thesis by simp
  next
    case (Inr s)
    from scanDirectory_cap [OF Inr] have "length (results s) \<le> 20" by (simp add: init_scan_def)
    with 4 Inr show ?thesis by simp
  qed
qed simp_all

lemma scanDirectory_prune:
  "length (results s) < 20 \<Longrightarrow> scanDirectory ft t dir (prune files) s = scanDirectory ft t dir files s"
proof (induction ft t dir files s rule: scanDirectory.induct)
  case (1 ft t dir s)
  then show ?case by simp
next
  case (2 ft t dir fname children files s)
  show ?case
  proof (cases "fname \<noteq> ''node_modules'' \<and> fname \<noteq> ''.git''")
    case True
    have ch: "scanDirectory ft t (dir @ [fname]) (prune children) s = scanDirectory ft t (dir @ [fname]) children s"
      using "2.IH"(1) [OF True "2.prems"] .
    show ?thesis
    proof (cases "scanDirectory ft t (dir @ [fname]) children s")
      case (Inl e)
      with True ch show ?thesis by (simp add: excluded_def)
    next
      case (Inr b)
      show ?thesis
      proof (cases "20 \<le> length (results b)")
        case big: True
        with True ch Inr show ?thesis by (simp add: excluded_def)
      next
        case small: False
        then have "scanDirectory ft t dir (prune files) b = scanDirectory ft t dir files b"
          using "2.IH"(2) [OF True Inr small] by simp
        with True ch Inr small show ?thesis by (simp add: excluded_def)
      qed
    qed
  next
    case False
    have "scanDirectory ft t dir (prune files) s = scanDirectory ft t dir files s"
      using "2.IH"(3) [OF False] "2.prems" by simp
    with False "2.prems" show ?thesis by (auto simp: excluded_def)
  qed
next
  case (3 ft t dir fname err files s)
  show ?case
  proof (cases "fname \<noteq> ''node_modules'' \<and> fname \<noteq> ''.git''")
    case True
    then show ?thesis by (simp add: excluded_def)
  next
    case False
    have "scanDirectory ft t dir (prune files) s = scanDirectory ft t dir files s"
      using "3.IH" [OF False] "3.prems" by simp
    with False "3.prems" show ?thesis by (auto simp: excluded_def)
  qed
next
  case (4 ft t dir fname content st files s)
  let ?x = "visitFile ft t dir fname content st s"
  show ?case
  proof (cases "20 \<le> length (results ?x)")
    case True
    then show ?thesis by (simp add: Let_def)
  next
    case False
    then have "scanDirectory ft t dir (prune files) ?x = scanDirectory ft t dir files ?x"
      using "4.IH" [OF refl False] by simp
    with False show ?thesis by (simp add: Let_def)
  qed
qed

lemma local_file_search_prune:
  "local_file_search t (prune_root root) ft = local_file_search t root ft"
proof (cases "(t, root, ft)" rule: local_file_search.cases)
  case (4 searchTerm fname files ft')
  have "scanDirectory ft t [] (prune files) init_scan = scanDirectory ft t [] files init_scan"
    by (rule scanDirectory_prune) (simp add: init_scan_def)
  with 4 show ?thesis by simp
qed simp_all

lemma visitFile_paths:
  "set (map path (results (visitFile ft t dir fname content st s))) \<subseteq> insert (dir @ [fname]) (set (map path (results s)))"
  "scannedFiles (visitFile ft t dir fname content st s) = Suc (scannedFiles s)"
  by (auto simp: visitFile_def Let_def)

lemma scanDirectory_visible:
  "scanDirectory ft t dir files s = Inr s' \<Longrightarrow>
     set (map path (results s')) \<subseteq> set (map path (results s)) \<union> set (files_under dir (prune files))
     \<and> scannedFiles s' \<le> scannedFiles s + length (files_under dir (prune files))"
proof (induction ft t dir files s arbitrary: s' rule: scanDirectory.induct)
  case (1 ft t dir s)
  then show ?case by simp
next
  case (2 ft t dir fname children files s)
  show ?case
  proof (cases "fname \<noteq> ''node_modules'' \<and> fname \<noteq> ''.git''")
    case True
    then have ex: "\<not> excluded fname" by (simp add: excluded_def)
    show ?thesis
    proof (cases "scanDirectory ft t (dir @ [fname]) children s")
      case (Inl e)
      with True "2.prems" show ?thesis by simp
    next
      case (Inr b)
      note bb = "2.IH"(1) [OF True Inr]
      show ?thesis
      proof (cases "20 \<le> length (results b)")
        case big: True
        with True Inr "2.prems" have "s' = b" by simp
        with bb ex show ?thesis by auto
      next
        case small: False
        then have "scanDirectory ft t dir files b = Inr s'" using True Inr "2.prems" by simp
        from "2.IH"(2) [OF True Inr small this] bb ex show ?thesis by auto
      qed
    qed
  next
    case False
    then have ex: "excluded fname" by (simp add: excluded_def)
    show ?thesis
    proof (cases "20 \<le> length (results s)")
      case True
      with False "2.prems" show ?thesis by auto
    next
      case small: False
      with False "2.prems" have "scanDirectory ft t dir files s = Inr s'" by (auto split: if_splits)
      from "2.IH"(3) [OF False small this] ex show ?thesis by simp
    qed
  qed
next
  case (3 ft t dir fname err files s)
  show ?case
  proof (cases "fname \<noteq> ''node_modules'' \<and> fname \<noteq> ''.git''")
    case True
    with "3.prems" show ?thesis by simp
  next
    case False
    then have ex: "excluded fname" by (simp add: excluded_def)
    show ?thesis
    proof (cases "20 \<le> length (results s)")
      case True
      with False "3.prems" show ?thesis by auto
    next
      case small: False
      with False "3.prems" have "scanDirectory ft t dir files s = Inr s'" by (auto split: if_splits)
      from "3.IH" [OF False small this] ex show ?thesis by simp
    qed
  qed
next
  case (4 ft t dir fname content st files s)
  let ?x = "visitFile ft t dir fname content st s"
  note v = visitFile_paths [of ft t dir fname content st s]
  show ?case
  proof (cases "20 \<le> length (results ?x)")
    case True
    with "4.prems" have "s' = ?x" by (simp add: Let_def)
    with v show ?thesis by auto
  next
    case False
    then have "scanDirectory ft t dir files ?x = Inr s'" using "4.prems" by (simp add: Let_def)
    from "4.IH" [OF refl False this]
    have a: "set (map path (results s')) \<subseteq> set (map path (results ?x)) \<union> set (files_under dir (prune files))"
      and b: "scannedFiles s' \<le> scannedFiles ?x + length (files_under dir (prune files))" by simp_all
    have g1: "set (map path (results s')) \<subseteq>
                set (map path (results s)) \<union> insert (dir @ [fname]) (set (files_under dir (prune files)))"
      using a v(1) by blast
    have g2: "scannedFiles s' \<le> scannedFiles s + Suc (length (files_under dir (prune files)))"
      using b v(2) by simp
    show ?thesis using g1 g2 by simp
  qed
qed

lemma files_under_prune:
  "p \<in> set (files_under dir (prune files)) \<Longrightarrow>
     \<exists>rel. p = dir @ rel \<and> rel \<noteq> [] \<and> (\<forall>d \<in> set (butlast rel). \<not> excluded d)"
proof (induction files arbitrary: dir rule: prune.induct)
  case 1
  then show ?case by simp
next
  case (2 fname children files)
  show ?case
  proof (cases "excluded fname")
    case True
    with 2 show ?thesis by simp
  next
    case False
    with "2.prems" consider "p \<in> set (files_under (dir @ [fname]) (prune children))"
      | "p \<in> set (files_under dir (prune files))" by auto
    then show ?thesis
    proof cases
      case 1
      from "2.IH"(2) [OF False 1] obtain rel where
        r: "p = (dir @ [fname]) @ rel" "rel \<noteq> []" "\<forall>d \<in> set (butlast rel). \<not> excluded d" by blast
      then have "p = dir @ (fname # rel) \<and> fname # rel \<noteq> [] \<and> (\<forall>d \<in> set (butlast (fname # rel)). \<not> excluded d)"
        using False by simp
      then show ?thesis by blast
    next
      case 2
      from "2.IH"(3) [OF False 2] show ?thesis .
    qed
  qed
next
  case (3 fname err files)
  then show ?case by (simp split: if_splits)
next
  case (4 fname content st files)
  from "4.prems" consider "p = dir @ [fname]" | "p \<in> set (files_under dir (prune files))" by auto
  then show ?case
  proof cases
    case 1
    then have "p = dir @ [fname] \<and> [fname] \<noteq> [] \<and> (\<forall>d \<in> set (butlast [fname]). \<not> excluded d)" by simp
    then show ?thesis by blast
  next
    case 2
    from "4.IH" [OF 2] show ?thesis .
  qed
qed

lemma local_file_search_visible:
  "set (map path (results_of (local_file_search t root ft))) \<subseteq> set (root_files (prune_root root))
   \<and> scanned_of (local_file_search t root ft) \<le> length (root_files (prune_root root))"
proof (cases "(t, root, ft)" rule: local_file_search.cases)
  case (4 searchTerm fname files ft')
  show ?thesis
  proof (cases "scanDirectory ft t [] files init_scan")
    case (Inl e)
    with 4 show ?thesis by simp
  next
    case (Inr s)
    from scanDirectory_visible [OF Inr] 4 Inr show ?thesis by (simp add: init_scan_def)
  qed
qed simp_all

lemma root_files_prune:
  "p \<in> set (root_files (prune_root root)) \<Longrightarrow> p \<noteq> [] \<and> (\<forall>d \<in> set (butlast p). \<not> excluded d)"
proof (cases root rule: prune_root.cases)
  case (1 fname files)
  assume "p \<in> set (root_files (prune_root root))"
  with 1 have "p \<in> set (files_under [] (prune files))" by simp
  from files_under_prune [OF this] show ?thesis by simp
qed simp_all

text \<open>
  Claim C9. For every tree and every search input the search behaves as on the tree
  without its directories called \<^verbatim>\<open>node_modules\<close> or \<^verbatim>\<open>.git\<close>: the outcome is the
  same, every result is a file of that smaller tree, the number of scanned files is at
  most its number of files, and no result lies below a directory of either name.
\<close>

theorem excluded_directories_never_scanned:
  "local_file_search t (prune_root root) ft = local_file_search t root ft
   \<and> set (map path (results_of (local_file_search t root ft))) \<subseteq> set (root_files (prune_root root))
   \<and> scanned_of (local_file_search t root ft) \<le> length (root_files (prune_root root))
   \<and> (\<forall>r \<in> set (results_of (local_file_search t root ft)).
         \<forall>d \<in> set (butlast (path r)). d \<noteq> ''node_modules'' \<and> d \<noteq> ''.git'')"
proof -
  note v = local_file_search_visible [of t root ft]
  have "\<forall>r \<in> set (results_of (local_file_search t root ft)).
         \<forall>d \<in> set (butlast (path r)). d \<noteq> ''node_modules'' \<and> d \<noteq> ''.git''"
  proof
    fix r assume "r \<in> set (results_of (local_file_search t root ft))"
    then have "path r \<in> set (root_files (prune_root root))" using v by auto
    from root_files_prune [OF this] show "\<forall>d \<in> set (butlast (path r)). d \<noteq> ''node_modules'' \<and> d \<noteq> ''.git''"
      by (simp add: excluded_def)
  qed
  with v local_file_search_prune [of t root ft] show ?thesis by blast
qed

text \<open>
  Claim C8, as amended. The test \<^verbatim>\<open>results.length >= 20\<close> stands at the end of the loop
  body, so it also runs when a recursive call returns: a break in an inner directory is
  followed by a break in every enclosing one. For every tree and every search input the
  list of results has at most 20 entries.
\<close>

theorem local_file_search_at_most_20:
  "length (results_of (local_file_search t root ft)) \<le> 20"
  by (rule results_of_cap)

text \<open>
  The claim as stated fails: no tree and no search input yield more than 20 results. A
  directory with 25 matching files, followed by more matching files beside it and in a
  second directory, yields exactly 20, and the scan stops at the twentieth file.
\<close>

theorem no_search_exceeds_20:
  "\<not> (\<exists>t root ft. 20 < length (results_of (local_file_search t root ft)))
   \<and> length (results_of (local_file_search ''note''
         (Some (Directory ''home''
            [Directory ''docs'' (replicate 25 (File ''note.txt'' None None)),
             File ''note.md'' None None,
             Directory ''more'' [File ''note.log'' None None]])) All)) = 20
   \<and> scanned_of (local_file_search ''note''
         (Some (Directory ''home''
            [Directory ''docs'' (replicate 25 (File ''note.txt'' None None)),
             File ''note.md'' None None,
             Directory ''more'' [File ''note.log'' None None]])) All) = 20"
proof -
  have "\<not> (\<exists>t root ft. 20 < length (results_of (local_file_search t root ft)))"
    using results_of_cap by (simp add: not_less)
  moreover have "length (results_of (local_file_search ''note''
         (Some (Directory ''home''
            [Directory ''docs'' (replicate 25 (File ''note.txt'' None None)),
             File ''note.md'' None None,
             Directory ''more'' [File ''note.log'' None None]])) All)) = 20"
    by code_simp
  moreover have "scanned_of (local_file_search ''note''
         (Some (Directory ''home''
            [Directory ''docs'' (replicate 25 (File ''note.txt'' None None)),
             File ''note.md'' None None,
             Directory ''more'' [File ''note.log'' None None]])) All) = 20"
    by code_simp
  ultimately show ?thesis by blast
qed

theorem excluded_directories_never_scanned_witness:
  "local_file_search ''app'' (Some (Directory ''repo'' example_tree)) All =
     Found [\<lparr>name = ''app.md'', path = [''app.md''], fileSize = 3, lastModified = 9\<rparr>,
            \<lparr>name = ''app.js'', path = [''src'', ''app.js''], fileSize = 10, lastModified = 5\<rparr>] 3 2
   \<and> local_file_search ''app'' (prune_root (Some (Directory ''repo'' example_tree))) All =
     Found [\<lparr>name = ''app.md'', path = [''app.md''], fileSize = 3, lastModified = 9\<rparr>,
            \<lparr>name = ''app.js'', path = [''src'', ''app.js''], fileSize = 10, lastModified = 5\<rparr>] 3 2
   \<and> root_files (prune_root (Some (Directory ''repo'' example_tree))) =
       [[''src'', ''app.js''], [''lib'', ''README''], [''app.md'']]"
proof -
  have e: "local_file_search ''app'' (Some (Directory ''repo'' example_tree)) All =
     Found [\<lparr>name = ''app.md'', path = [''app.md''], fileSize = 3, lastModified = 9\<rparr>,
            \<lparr>name = ''app.js'', path = [''src'', ''app.js''], fileSize = 10, lastModified = 5\<rparr>] 3 2"
    by code_simp
  have f: "root_files (prune_root (Some (Directory ''repo'' example_tree))) =
       [[''src'', ''app.js''], [''lib'', ''README''], [''app.md'']]"
    by code_simp
  show ?thesis
    using excluded_directories_never_scanned [of "''app''" "Some (Directory ''repo'' example_tree)" All] e f
    by simp
qed


subsection \<open>The registry and the tool list\<close>

lemma register_all_distinct:
  "distinct (map (\<lambda>entry. tool_name (fst entry)) (reg @ regs)) \<Longrightarrow> register_all regs reg = Inr (reg @ regs)"
proof (induction regs arbitrary: reg)
  case Nil
  then show ?case by simp
next
  case (Cons e regs)
  obtain descriptor h where e: "e = (descriptor, h)" by (cases e)
  from Cons.prems have new: "tool_name descriptor \<notin> set (map (\<lambda>entry. tool_name (fst entry)) reg)"
    and rest: "distinct (map (\<lambda>entry. tool_name (fst entry)) ((reg @ [(descriptor, h)]) @ regs))"
    by (auto simp: e)
  from new have "register descriptor h reg = Inr (reg @ [(descriptor, h)])"
    by (simp add: register_def)
  with Cons.IH [OF rest] show ?case by (simp add: e)
qed

text \<open>
  Claim C6. After registering any tools with distinct names, one after the other into an
  empty registry, every registration succeeds and the tool-list query returns exactly
  the registered descriptors (name, description and input schema), as many as were
  registered and in registration order; the query leaves the registry as it is, so a
  second query returns the same sequence.
\<close>

theorem tool_list_round_trip:
  assumes "distinct (map (\<lambda>entry. tool_name (fst entry)) regs)"
  shows "\<exists>reg. register_all regs [] = Inr reg
           \<and> list_tools reg = map fst regs
           \<and> length (list_tools reg) = length regs
           \<and> tool_list_query reg = (reg, map fst regs)
           \<and> tool_list_query (fst (tool_list_query reg)) = (reg, map fst regs)"
proof -
  have "register_all regs [] = Inr regs"
    using register_all_distinct [of "[]" regs] assms by simp
  then show ?thesis by (simp add: list_tools_def tool_list_query_def)
qed


lemma source_tools_names:
  "map (\<lambda>entry. tool_name (fst entry)) source_tools =
     [''print-menu'', ''news-by-topic'', ''adder'', ''twitter-X-post'', ''wikipedia-search'',
      ''github-repo-info'', ''movie-ratings'', ''local-file-search'', ''truth_table'', ''define_word'']"
  by (simp add: source_tools_def print_menu_tool_def news_by_topic_tool_def adder_tool_def
      twitter_X_post_tool_def wikipedia_search_tool_def github_repo_info_tool_def
      movie_ratings_tool_def local_file_search_tool_def truth_table_tool_def define_word_tool_def)

lemma source_tools_distinct: "distinct (map (\<lambda>entry. tool_name (fst entry)) source_tools)"
  unfolding source_tools_names by simp

theorem tool_list_round_trip_witness:
  "\<exists>reg. registerTools [] = Inr reg
      \<and> list_tools reg =
          [print_menu_tool, news_by_topic_tool, adder_tool, twitter_X_post_tool, wikipedia_search_tool,
           github_repo_info_tool, movie_ratings_tool, local_file_search_tool, truth_table_tool,
           define_word_tool]
      \<and> map tool_name (list_tools reg) =
          [''print-menu'', ''news-by-topic'', ''adder'', ''twitter-X-post'', ''wikipedia-search'',
           ''github-repo-info'', ''movie-ratings'', ''local-file-search'', ''truth_table'', ''define_word'']
      \<and> length (list_tools reg) = 10"
proof -
  from tool_list_round_trip [OF source_tools_distinct]
  obtain reg where r: "register_all source_tools [] = Inr reg" "list_tools reg = map fst source_tools"
    by (elim exE conjE)
  have l: "map fst source_tools =
          [print_menu_tool, news_by_topic_tool, adder_tool, twitter_X_post_tool, wikipedia_search_tool,
           github_repo_info_tool, movie_ratings_tool, local_file_search_tool, truth_table_tool,
           define_word_tool]"
    by (simp add: source_tools_def)
  have n: "map tool_name (map fst source_tools) =
          [''print-menu'', ''news-by-topic'', ''adder'', ''twitter-X-post'', ''wikipedia-search'',
           ''github-repo-info'', ''movie-ratings'', ''local-file-search'', ''truth_table'', ''define_word'']"
    using source_tools_names by (simp only: map_map comp_def)
  have a: "registerTools [] = Inr reg" using r(1) by (simp only: registerTools_def)
  have b: "list_tools reg =
          [print_menu_tool, news_by_topic_tool, adder_tool, twitter_X_post_tool, wikipedia_search_tool,
           github_repo_info_tool, movie_ratings_tool, local_file_search_tool, truth_table_tool,
           define_word_tool]" using r(2) l by (simp only:)
  have c: "map tool_name (list_tools reg) =
          [''print-menu'', ''news-by-topic'', ''adder'', ''twitter-X-post'', ''wikipedia-search'',
           ''github-repo-info'', ''movie-ratings'', ''local-file-search'', ''truth_table'', ''define_word'']"
    using n by (simp only: r(2))
  have d: "length (list_tools reg) = 10" by (simp only: b) simp
  show ?thesis
    by (rule exI [of _ reg]) (intro conjI a b c d)
qed

subsection \<open>Failing tools\<close>

lemma str_includes_self: "str_includes t t"
  using str_includes_append [of "[]" t "[]"] by simp

lemma str_includes_suffix: "str_includes (front @ t) t"
  using str_includes_append [of front t "[]"] by simp

lemma attempt_error_Some: "attempt_error a = Some err \<longleftrightarrow> a = Inl err"
  by (cases a) auto

lemma attempt_error_None: "attempt_error a = None \<longleftrightarrow> (\<exists>x. a = Inr x)"
  by (cases a) auto

lemma failure_after_Some:
  "failure_after q a = Some err \<longleftrightarrow> q = Inl err \<or> (\<exists>x. q = Inr x) \<and> a = Inl err"
  by (cases q) (auto simp: attempt_error_Some)

lemma failure_after_None: "failure_after q a = None \<longleftrightarrow> (\<exists>x y. q = Inr x \<and> a = Inr y)"
  by (cases q) (auto simp: attempt_error_None)

lemma call_tool_running:
  "snd (invoke call d) = Some d' \<Longrightarrow> call_tool call d = Some (answer (fst (invoke call d)), d')"
  by (cases "invoke call d") (simp add: call_tool_def)

lemma call_tool_ended: "snd (invoke call d) = None \<Longrightarrow> call_tool call d = None"
  by (cases "invoke call d") (simp add: call_tool_def)

lemma only_eval_has_effects: "tool_of call \<noteq> TruthTable \<Longrightarrow> snd (invoke call d) = Some d"
  by (cases call) simp_all

lemma thrown_reported:
  assumes "fst (invoke call d) = Inl (Error msg)" "escapes_handler call" "reports_message call"
  shows "\<exists>t. answer (fst (invoke call d)) = [Text t]
         \<and> (escapes_handler call \<longrightarrow> fst (invoke call d) = Inl (Error msg) \<and> t = msg)
         \<and> (\<not> escapes_handler call \<longrightarrow> fst (invoke call d) = Inr [Text t])
         \<and> (reports_message call \<longrightarrow> str_includes t msg)
         \<and> (\<not> reports_message call \<longrightarrow> t = catch_text call)"
proof -
  have "answer (fst (invoke call d)) = [Text msg]" by (simp add: answer_def assms(1))
  moreover have "str_includes msg msg" by (rule str_includes_self)
  ultimately show ?thesis using assms by (intro exI [of _ msg]) simp
qed

lemma caught_quoted:
  assumes "fst (invoke call d) = Inr [Text t]" "\<not> escapes_handler call" "reports_message call"
    "str_includes t msg"
  shows "\<exists>t. answer (fst (invoke call d)) = [Text t]
         \<and> (escapes_handler call \<longrightarrow> fst (invoke call d) = Inl (Error msg) \<and> t = msg)
         \<and> (\<not> escapes_handler call \<longrightarrow> fst (invoke call d) = Inr [Text t])
         \<and> (reports_message call \<longrightarrow> str_includes t msg)
         \<and> (\<not> reports_message call \<longrightarrow> t = catch_text call)"
proof -
  have "answer (fst (invoke call d)) = [Text t]" by (simp add: answer_def assms(1))
  then show ?thesis using assms by (intro exI [of _ t]) simp
qed

lemma caught_fixed:
  assumes "fst (invoke call d) = Inr [Text (catch_text call)]" "\<not> escapes_handler call"
    "\<not> reports_message call"
  shows "\<exists>t. answer (fst (invoke call d)) = [Text t]
         \<and> (escapes_handler call \<longrightarrow> fst (invoke call d) = Inl (Error msg) \<and> t = msg)
         \<and> (\<not> escapes_handler call \<longrightarrow> fst (invoke call d) = Inr [Text t])
         \<and> (reports_message call \<longrightarrow> str_includes t msg)
         \<and> (\<not> reports_message call \<longrightarrow> t = catch_text call)"
proof -
  have "answer (fst (invoke call d)) = [Text (catch_text call)]" by (simp add: answer_def assms(1))
  then show ?thesis using assms by (intro exI [of _ "catch_text call"]) simp
qed

lemma guarded_failure:
  assumes "failure_after q a = Some (Error msg)"
  obtains "q = Inl (Error msg)" | x where "q = Inr x" "a = Inl (Error msg)"
  using assms by (auto simp: failure_after_Some)

lemma failing_call_text:
  assumes "failure call = Some (Error msg)"
  shows "\<exists>t. answer (fst (invoke call d)) = [Text t]
         \<and> (escapes_handler call \<longrightarrow> fst (invoke call d) = Inl (Error msg) \<and> t = msg)
         \<and> (\<not> escapes_handler call \<longrightarrow> fst (invoke call d) = Inr [Text t])
         \<and> (reports_message call \<longrightarrow> str_includes t msg)
         \<and> (\<not> reports_message call \<longrightarrow> t = catch_text call)"
proof (cases call)
  case (PrintMenuCall title items)
  with assms show ?thesis by simp
next
  case (NewsByTopicCall topic query attempt)
  with assms have "failure_after query attempt = Some (Error msg)" by simp
  then show ?thesis
  proof (cases rule: guarded_failure)
    case 1
    have "fst (invoke call d) = Inl (Error msg)" by (simp add: NewsByTopicCall 1 news_by_topic_def)
    moreover have "escapes_handler call" "reports_message call" by (simp_all add: NewsByTopicCall 1)
    ultimately show ?thesis by (rule thrown_reported)
  next
    case (2 x)
    have "fst (invoke call d) = Inr [Text (catch_text call)]"
      by (simp add: NewsByTopicCall 2 news_by_topic_def)
    moreover have "\<not> escapes_handler call" "\<not> reports_message call" by (simp_all add: NewsByTopicCall 2)
    ultimately show ?thesis by (rule caught_fixed)
  qed
next
  case (AdderCall a b)
  with assms show ?thesis by simp
next
  case (TwitterXPostCall status tweet)
  with assms have t: "tweet = Inl (Error msg)" by (simp add: attempt_error_Some)
  have "fst (invoke call d) =
      Inr [Text ((FORMAT_GREEN @ FORMAT_BOLD @ ''Tweet created successfully:'' @ FORMAT_RESET @
                 '' '' @ ''Error sending tweet: '') @ msg @ newline)]"
    by (simp add: TwitterXPostCall t twitter_X_post_def createPost_def)
  moreover have "\<not> escapes_handler call" "reports_message call" by (simp_all add: TwitterXPostCall)
  moreover have "str_includes ((FORMAT_GREEN @ FORMAT_BOLD @ ''Tweet created successfully:'' @ FORMAT_RESET @
                 '' '' @ ''Error sending tweet: '') @ msg @ newline) msg"
    by (rule str_includes_append)
  ultimately show ?thesis by (rule caught_quoted)
next
  case (WikipediaSearchCall query encodedQuery attempt)
  with assms have "failure_after encodedQuery attempt = Some (Error msg)" by simp
  then show ?thesis
  proof (cases rule: guarded_failure)
    case 1
    have "fst (invoke call d) = Inl (Error msg)" by (simp add: WikipediaSearchCall 1 wikipedia_search_def)
    moreover have "escapes_handler call" "reports_message call" by (simp_all add: WikipediaSearchCall 1)
    ultimately show ?thesis by (rule thrown_reported)
  next
    case (2 x)
    have "fst (invoke call d) = Inr [Text (catch_text call)]"
      by (simp add: WikipediaSearchCall 2 wikipedia_search_def)
    moreover have "\<not> escapes_handler call" "\<not> reports_message call"
      by (simp_all add: WikipediaSearchCall 2)
    ultimately show ?thesis by (rule caught_fixed)
  qed
next
  case (GithubRepoInfoCall owner repo attempt)
  with assms have t: "attempt = Inl (Error msg)" by (simp add: attempt_error_Some)
  have "fst (invoke call d) = Inr [Text (catch_text call)]"
    by (simp add: GithubRepoInfoCall t github_repo_info_def)
  moreover have "\<not> escapes_handler call" "\<not> reports_message call" by (simp_all add: GithubRepoInfoCall)
  ultimately show ?thesis by (rule caught_fixed)
next
  case (MovieRatingsCall title queryUrl attempt)
  with assms have "failure_after queryUrl attempt = Some (Error msg)" by simp
  then show ?thesis
  proof (cases rule: guarded_failure)
    case 1
    have "fst (invoke call d) = Inl (Error msg)" by (simp add: MovieRatingsCall 1 movie_ratings_def)
    moreover have "escapes_handler call" "reports_message call" by (simp_all add: MovieRatingsCall 1)
    ultimately show ?thesis by (rule thrown_reported)
  next
    case (2 x)
    have "fst (invoke call d) = Inr [Text (catch_text call)]"
      by (simp add: MovieRatingsCall 2 movie_ratings_def)
    moreover have "\<not> escapes_handler call" "\<not> reports_message call"
      by (simp_all add: MovieRatingsCall 2)
    ultimately show ?thesis by (rule caught_fixed)
  qed
next
  case (LocalFileSearchCall searchTerm directory root stat_error ft listing)
  show ?thesis
  proof (cases root)
    case None
    then have "fst (invoke call d) = Inr [Text (catch_text call)]"
      by (simp add: LocalFileSearchCall local_file_search_handler_def)
    moreover have "\<not> escapes_handler call" "\<not> reports_message call"
      by (simp_all add: LocalFileSearchCall None)
    ultimately show ?thesis by (rule caught_fixed)
  next
    case (Some entry)
    have f: "(case local_file_search searchTerm root ft of
        NotFound \<Rightarrow> Some stat_error
      | SearchError err \<Rightarrow> Some err
      | Found rs scanned matched \<Rightarrow> attempt_error listing
      | _ \<Rightarrow> None) = Some (Error msg)"
      using assms by (simp add: LocalFileSearchCall)
    have nf: "local_file_search searchTerm root ft \<noteq> NotFound"
      unfolding Some by (cases entry) (simp_all split: sum.splits)
    from f nf have "fst (invoke call d) =
        Inr [Text ((warning_sign @ '' An error occurred during the file search: '') @ msg)]"
      by (cases "local_file_search searchTerm root ft")
        (simp_all add: LocalFileSearchCall local_file_search_handler_def attempt_error_Some)
    moreover have "\<not> escapes_handler call" "reports_message call"
      by (simp_all add: LocalFileSearchCall Some)
    moreover have "str_includes ((warning_sign @ '' An error occurred during the file search: '') @ msg) msg"
      by (rule str_includes_suffix)
    ultimately show ?thesis by (rule caught_quoted)
  qed
next
  case (TruthTableCall expression attempt eval_effect)
  with assms have t: "attempt = Inl (Error msg)" by (simp add: attempt_error_Some)
  have "fst (invoke call d) =
      Inr [Text ((FORMAT_BOLD @ ''Error:'' @ FORMAT_RESET @ '' Invalid boolean expression. '') @ msg)]"
    by (simp add: TruthTableCall t truth_table_def)
  moreover have "\<not> escapes_handler call" "reports_message call" by (simp_all add: TruthTableCall)
  moreover have "str_includes ((FORMAT_BOLD @ ''Error:'' @ FORMAT_RESET @ '' Invalid boolean expression. '') @ msg) msg"
    by (rule str_includes_suffix)
  ultimately show ?thesis by (rule caught_quoted)
next
  case (DefineWordCall word attempt)
  with assms have t: "attempt = Inl (Error msg)" by (simp add: attempt_error_Some)
  have "fst (invoke call d) = Inl (Error msg)" by (simp add: DefineWordCall t define_word_def)
  moreover have "escapes_handler call" "reports_message call" by (simp_all add: DefineWordCall)
  ultimately show ?thesis by (rule thrown_reported)
qed

lemma working_call_result:
  assumes "failure call = None"
  shows "\<exists>res. fst (invoke call d) = Inr res"
proof (cases call)
  case (NewsByTopicCall topic query attempt)
  with assms obtain x y where "query = Inr x" "attempt = Inr y" by (auto simp: failure_after_None)
  with NewsByTopicCall show ?thesis by (simp add: news_by_topic_def)
next
  case (WikipediaSearchCall query encodedQuery attempt)
  with assms obtain x y where "encodedQuery = Inr x" "attempt = Inr y" by (auto simp: failure_after_None)
  with WikipediaSearchCall show ?thesis by (simp add: wikipedia_search_def)
next
  case (MovieRatingsCall title queryUrl attempt)
  with assms obtain x y where "queryUrl = Inr x" "attempt = Inr y" by (auto simp: failure_after_None)
  with MovieRatingsCall show ?thesis by (simp add: movie_ratings_def)
next
  case (DefineWordCall word attempt)
  with assms obtain x where "attempt = Inr x" by (auto simp: attempt_error_None)
  with DefineWordCall show ?thesis by (simp add: define_word_def)
qed simp_all

lemma tools_call_active:
  assumes "reachable d" "transports d sid = Some r"
  shows "snd (invoke call d) = Some d' \<Longrightarrow>
           tools_call u (Some sid) call d = (Some d', HandleRequest r, Some (answer (fst (invoke call d))))"
    and "snd (invoke call d) = None \<Longrightarrow>
           tools_call u (Some sid) call d = (None, HandleRequest r, None)"
proof -
  note i = reachable_inv [OF assms(1)]
  have look: "session_lookup d (Some sid) = Own r" using i assms(2) by (rule session_lookup_active(1))
  have s: "step u (POST (Some sid) False) d = (d, HandleRequest r)"
    using look inv_forward [OF i look, of "Post False" False u] by (simp add: app_post_def)
  show "tools_call u (Some sid) call d = (Some d', HandleRequest r, Some (answer (fst (invoke call d))))"
    if "snd (invoke call d) = Some d'"
    using s call_tool_running [OF that] by (simp add: tools_call_def)
  show "tools_call u (Some sid) call d = (None, HandleRequest r, None)"
    if "snd (invoke call d) = None"
    using s call_tool_ended [OF that] by (simp add: tools_call_def)
qed

text \<open>
  Claim C5, as amended. In every reachable state and for every active session, a tool
  call in which the handler fails with a message, and which leaves the process running,
  is handed to the session and answered by exactly one text block. A failure outside
  every \<^verbatim>\<open>try\<close> block (the error of \<^verbatim>\<open>encodeURIComponent\<close> in \<^verbatim>\<open>news-by-topic\<close>,
  \<^verbatim>\<open>wikipedia-search\<close> and \<^verbatim>\<open>movie-ratings\<close>, every failure of \<^verbatim>\<open>define_word\<close>)
  leaves the handler, and the block of the dispatch boundary is its message; every other
  failure is caught by the handler, which returns the block itself. The block contains
  the message when the failure leaves the handler and when the \<^verbatim>\<open>catch\<close> prints it
  (\<^verbatim>\<open>twitter-X-post\<close>, \<^verbatim>\<open>truth_table\<close>, the second \<^verbatim>\<open>catch\<close> of
  \<^verbatim>\<open>local-file-search\<close>); otherwise it is the text of the \<^verbatim>\<open>catch\<close>, the same for
  every message. The state of the dispatcher afterwards is the one the handler leaves.
  Every tool but \<^verbatim>\<open>truth_table\<close>, which evaluates the text of the caller, leaves the
  process running and the state unchanged, so the session stays in the table and open.
  Every call of a tool that does not fail and leaves the process running, made in the
  state before the failing call, is handed to the same session and answered with what
  its handler returns.
\<close>

theorem tool_failure_is_reported_as_text:
  assumes "reachable d" and "transports d sid = Some r" and "failure call = Some (Error msg)"
    and "snd (invoke call d) = Some d'"
  shows "\<exists>t. tools_call uuid (Some sid) call d = (Some d', HandleRequest r, Some [Text t])
           \<and> (escapes_handler call \<longrightarrow> fst (invoke call d) = Inl (Error msg) \<and> t = msg)
           \<and> (\<not> escapes_handler call \<longrightarrow> fst (invoke call d) = Inr [Text t])
           \<and> (reports_message call \<longrightarrow> str_includes t msg)
           \<and> (\<not> reports_message call \<longrightarrow> t = catch_text call)
           \<and> (tool_of call \<noteq> TruthTable \<longrightarrow>
                 d' = d \<and> sessionId (heap d ! r) = Some sid \<and> \<not> closed (heap d ! r))
           \<and> (\<forall>c s. tool_of c \<noteq> TruthTable \<longrightarrow> snd (invoke c s) = Some s)
           \<and> (\<forall>u call' d''. failure call' = None \<and> snd (invoke call' d) = Some d'' \<longrightarrow>
                 (\<exists>res. fst (invoke call' d) = Inr res
                    \<and> tools_call u (Some sid) call' d = (Some d'', HandleRequest r, Some res)))"
proof -
  from failing_call_text [OF assms(3), of d] obtain t where
    t: "answer (fst (invoke call d)) = [Text t]"
       "escapes_handler call \<longrightarrow> fst (invoke call d) = Inl (Error msg) \<and> t = msg"
       "\<not> escapes_handler call \<longrightarrow> fst (invoke call d) = Inr [Text t]"
       "reports_message call \<longrightarrow> str_includes t msg"
       "\<not> reports_message call \<longrightarrow> t = catch_text call" by (elim exE conjE)
  have a: "tools_call uuid (Some sid) call d = (Some d', HandleRequest r, Some [Text t])"
    using tools_call_active(1) [OF assms(1,2,4), of uuid] t(1) by simp
  note i = reachable_inv [OF assms(1)]
  have b: "tool_of call \<noteq> TruthTable \<longrightarrow>
      d' = d \<and> sessionId (heap d ! r) = Some sid \<and> \<not> closed (heap d ! r)"
    using only_eval_has_effects [of call d] assms(4) session_lookup_active(3,5) [OF i assms(2)] by simp
  have e: "\<forall>c s. tool_of c \<noteq> TruthTable \<longrightarrow> snd (invoke c s) = Some s"
    by (intro allI impI) (rule only_eval_has_effects)
  have c: "\<forall>u call' d''. failure call' = None \<and> snd (invoke call' d) = Some d'' \<longrightarrow>
                 (\<exists>res. fst (invoke call' d) = Inr res
                    \<and> tools_call u (Some sid) call' d = (Some d'', HandleRequest r, Some res))"
  proof (intro allI impI)
    fix u call' d'' assume h: "failure call' = None \<and> snd (invoke call' d) = Some d''"
    then have f: "failure call' = None" and st: "snd (invoke call' d) = Some d''" by simp_all
    from working_call_result [OF f, of d] obtain res where
      res: "fst (invoke call' d) = Inr res" by (elim exE)
    have "tools_call u (Some sid) call' d = (Some d'', HandleRequest r, Some res)"
      using tools_call_active(1) [OF assms(1,2) st, of u] res by (simp add: answer_def)
    with res show "\<exists>res. fst (invoke call' d) = Inr res
        \<and> tools_call u (Some sid) call' d = (Some d'', HandleRequest r, Some res)"
      by (intro exI conjI)
  qed
  show ?thesis by (rule exI [of _ t]) (intro conjI a t(2) t(3) t(4) t(5) b e c)
qed

theorem tool_failure_is_reported_as_text_witness:
  "reachable session_a_open \<and> transports session_a_open uuid_a = Some 0
   \<and> failure failing_tweet = Some (Error ''boom'')
   \<and> snd (invoke failing_tweet session_a_open) = Some session_a_open
   \<and> \<not> escapes_handler failing_tweet \<and> reports_message failing_tweet
   \<and> tool_of failing_tweet \<noteq> TruthTable
   \<and> tools_call uuid_b (Some uuid_a) failing_tweet session_a_open =
       (Some session_a_open, HandleRequest 0, Some [Text tweet_failure_text])
   \<and> fst (invoke failing_tweet session_a_open) = Inr [Text tweet_failure_text]
   \<and> str_includes tweet_failure_text ''boom''
   \<and> sessionId (heap session_a_open ! 0) = Some uuid_a \<and> \<not> closed (heap session_a_open ! 0)
   \<and> failure (AdderCall 2 3) = None
   \<and> snd (invoke (AdderCall 2 3) session_a_open) = Some session_a_open
   \<and> tools_call uuid_b (Some uuid_a) (AdderCall 2 3) session_a_open =
       (Some session_a_open, HandleRequest 0, Some (adder 2 3))"
proof -
  have t: "transports session_a_open uuid_a = Some 0" by (simp add: session_a_open_def)
  have f: "failure failing_tweet = Some (Error ''boom'')" by (simp add: failing_tweet_def)
  have st: "snd (invoke failing_tweet session_a_open) = Some session_a_open"
    by (simp add: failing_tweet_def)
  have e: "\<not> escapes_handler failing_tweet" by (simp add: failing_tweet_def)
  have r: "reports_message failing_tweet" by (simp add: failing_tweet_def)
  have k: "tool_of failing_tweet \<noteq> TruthTable" by (simp add: failing_tweet_def)
  have c: "fst (invoke failing_tweet session_a_open) = Inr [Text tweet_failure_text]"
    by (simp add: failing_tweet_def twitter_X_post_def createPost_def tweet_failure_text_def)
  have n: "failure (AdderCall 2 3) = None"
    and m: "fst (invoke (AdderCall 2 3) session_a_open) = Inr (adder 2 3)"
    and m': "snd (invoke (AdderCall 2 3) session_a_open) = Some session_a_open" by simp_all
  from tool_failure_is_reported_as_text [OF session_a_open_reachable t f st, of uuid_b]
  obtain x where x1: "tools_call uuid_b (Some uuid_a) failing_tweet session_a_open
        = (Some session_a_open, HandleRequest 0, Some [Text x])"
    and x2: "\<not> escapes_handler failing_tweet \<longrightarrow> fst (invoke failing_tweet session_a_open) = Inr [Text x]"
    and x3: "reports_message failing_tweet \<longrightarrow> str_includes x ''boom''"
    and x4: "tool_of failing_tweet \<noteq> TruthTable \<longrightarrow>
       session_a_open = session_a_open
       \<and> sessionId (heap session_a_open ! 0) = Some uuid_a \<and> \<not> closed (heap session_a_open ! 0)"
    and x5: "\<forall>u call' d''. failure call' = None \<and> snd (invoke call' session_a_open) = Some d'' \<longrightarrow>
                 (\<exists>res. fst (invoke call' session_a_open) = Inr res
                    \<and> tools_call u (Some uuid_a) call' session_a_open =
                        (Some d'', HandleRequest 0, Some res))"
    by (elim exE conjE)
  from x2 e have x2': "fst (invoke failing_tweet session_a_open) = Inr [Text x]" by (rule mp)
  with c have xt: "x = tweet_failure_text" by simp
  from x4 k have s2: "sessionId (heap session_a_open ! 0) = Some uuid_a"
    and s3: "\<not> closed (heap session_a_open ! 0)" by simp_all
  have a: "tools_call uuid_b (Some uuid_a) failing_tweet session_a_open =
       (Some session_a_open, HandleRequest 0, Some [Text tweet_failure_text])"
    using x1 by (simp only: xt)
  have b: "str_includes tweet_failure_text ''boom''"
    using x3 r by (simp only: xt)
  from x5 [rule_format, of "AdderCall 2 3" session_a_open uuid_b, OF conjI [OF n m']] obtain res where
    res: "fst (invoke (AdderCall 2 3) session_a_open) = Inr res"
    "tools_call uuid_b (Some uuid_a) (AdderCall 2 3) session_a_open =
       (Some session_a_open, HandleRequest 0, Some res)"
    by (elim exE conjE)
  from res(1) m have "res = adder 2 3" by simp
  with res(2) have d: "tools_call uuid_b (Some uuid_a) (AdderCall 2 3) session_a_open =
       (Some session_a_open, HandleRequest 0, Some (adder 2 3))" by (simp only:)
  show ?thesis by (intro conjI session_a_open_reachable t f st e r k a c b s2 s3 n m' d)
qed

text \<open>
  The claim as stated fails: when the request of \<^verbatim>\<open>news-by-topic\<close> is rejected with the
  message "boom", the handler answers with its own text, which does not contain "boom".
\<close>

theorem news_failure_drops_the_message:
  "reachable session_a_open \<and> transports session_a_open uuid_a = Some 0
   \<and> failure failing_news = Some (Error ''boom'')
   \<and> tools_call uuid_b (Some uuid_a) failing_news session_a_open =
       (Some session_a_open, HandleRequest 0,
        Some [Text (warning_sign @ '' Failed to retrieve news. Please try again later.'')])
   \<and> \<not> str_includes (warning_sign @ '' Failed to retrieve news. Please try again later.'') ''boom''"
proof -
  have t: "transports session_a_open uuid_a = Some 0" by (simp add: session_a_open_def)
  have a: "failure failing_news = Some (Error ''boom'')" by (simp add: failing_news_def)
  have e: "snd (invoke failing_news session_a_open) = Some session_a_open"
    by (simp add: failing_news_def)
  have c: "answer (fst (invoke failing_news session_a_open)) =
       [Text (warning_sign @ '' Failed to retrieve news. Please try again later.'')]"
    by (simp add: failing_news_def answer_def news_by_topic_def)
  have b: "tools_call uuid_b (Some uuid_a) failing_news session_a_open =
       (Some session_a_open, HandleRequest 0,
        Some [Text (warning_sign @ '' Failed to retrieve news. Please try again later.'')])"
    using tools_call_active(1) [OF session_a_open_reachable t e, of uuid_b] by (simp only: c)
  have n: "\<not> str_includes (warning_sign @ '' Failed to retrieve news. Please try again later.'') ''boom''"
    by code_simp
  show ?thesis by (intro conjI session_a_open_reachable t a b n)
qed

end
